theory Spec2Isabelle
  imports Complex_Main "HOL-Library.Multiset"
begin

section \<open>Host language: the JavaScript built-ins the service relies on\<close>

text \<open>
  Time values, years, months and the limit of \<open>getRecentPosts\<close> are taken to be
  integer valued and are modelled by \<open>int\<close>. The page number and the page size, which
  \<open>getPosts\<close> accepts as they come, are values of the type \<open>number\<close> below.
\<close>

subsection \<open>Number\<close>

text \<open>
  A JavaScript number is a finite value, one of the two infinities, or \<open>NaN\<close>. Finite
  values are rationals and their arithmetic is exact: the rounding of double precision
  and the sign of zero are outside the model. The operations are those \<open>getPosts\<close>
  uses: \<open>-\<close>, \<open>*\<close>, \<open>+\<close>, \<open>/\<close>, \<open>Math.ceil\<close>, and the conversion
  \<open>ToIntegerOrInfinity\<close> that \<open>Array.prototype.slice\<close> applies to its arguments
  (\<open>NaN\<close> becomes 0, a finite value is truncated towards 0).
\<close>

datatype number = Num rat | Infinity | NegInfinity | NaN

fun num_neg :: "number \<Rightarrow> number" where
  "num_neg (Num a) = Num (- a)"
| "num_neg Infinity = NegInfinity"
| "num_neg NegInfinity = Infinity"
| "num_neg NaN = NaN"

fun num_add :: "number \<Rightarrow> number \<Rightarrow> number" where
  "num_add NaN y = NaN"
| "num_add x NaN = NaN"
| "num_add (Num a) (Num b) = Num (a + b)"
| "num_add Infinity NegInfinity = NaN"
| "num_add NegInfinity Infinity = NaN"
| "num_add Infinity y = Infinity"
| "num_add x Infinity = Infinity"
| "num_add NegInfinity y = NegInfinity"
| "num_add x NegInfinity = NegInfinity"

definition num_sub :: "number \<Rightarrow> number \<Rightarrow> number" where
  "num_sub x y = num_add x (num_neg y)"

fun num_sign :: "number \<Rightarrow> int" where
  "num_sign (Num a) = (if a = 0 then 0 else if 0 < a then 1 else - 1)"
| "num_sign Infinity = 1"
| "num_sign NegInfinity = - 1"
| "num_sign NaN = 0"

fun num_mul :: "number \<Rightarrow> number \<Rightarrow> number" where
  "num_mul NaN y = NaN"
| "num_mul x NaN = NaN"
| "num_mul (Num a) (Num b) = Num (a * b)"
| "num_mul x y =
     (let s = num_sign x * num_sign y
      in if s = 0 then NaN else if 0 < s then Infinity else NegInfinity)"

fun num_div :: "number \<Rightarrow> number \<Rightarrow> number" where
  "num_div NaN y = NaN"
| "num_div x NaN = NaN"
| "num_div (Num a) (Num b) =
     (if b = 0 then (if a = 0 then NaN else if 0 < a then Infinity else NegInfinity)
      else Num (a / b))"
| "num_div (Num a) y = Num 0"
| "num_div x (Num b) = (if 0 \<le> b then x else num_neg x)"
| "num_div x y = NaN"

fun Math_ceil :: "number \<Rightarrow> number" where
  "Math_ceil (Num a) = Num (of_int \<lceil>a\<rceil>)"
| "Math_ceil x = x"

datatype integer_or_infinity = Finite int | PlusInfinity | MinusInfinity

fun ToIntegerOrInfinity :: "number \<Rightarrow> integer_or_infinity" where
  "ToIntegerOrInfinity NaN = Finite 0"
| "ToIntegerOrInfinity Infinity = PlusInfinity"
| "ToIntegerOrInfinity NegInfinity = MinusInfinity"
| "ToIntegerOrInfinity (Num a) = Finite (if 0 \<le> a then \<lfloor>a\<rfloor> else \<lceil>a\<rceil>)"

subsection \<open>Date\<close>

text \<open>
  A \<open>Date\<close> is its time value, the milliseconds since the epoch, which is what
  \<open>getTime()\<close> returns. \<open>getFullYear()\<close> and \<open>getMonth()\<close> are the calendar
  fields of that instant (proleptic Gregorian calendar, months counted from 0),
  computed here for the UTC time zone.
\<close>

record Date =
  time :: int

definition getTime :: "Date \<Rightarrow> int" where
  "getTime d = time d"

definition civil_from_days :: "int \<Rightarrow> int \<times> int" where
  "civil_from_days days =
     (let z = days + 719468;
          era = z div 146097;
          doe = z - era * 146097;
          yoe = (doe - doe div 1460 + doe div 36524 - doe div 146096) div 365;
          doy = doe - (365 * yoe + yoe div 4 - yoe div 100);
          mp = (5 * doy + 2) div 153;
          m = (if mp < 10 then mp + 3 else mp - 9)
      in (yoe + era * 400 + (if m \<le> 2 then 1 else 0), m - 1))"

definition getFullYear :: "Date \<Rightarrow> int" where
  "getFullYear d = fst (civil_from_days (time d div 86400000))"

definition getMonth :: "Date \<Rightarrow> int" where
  "getMonth d = snd (civil_from_days (time d div 86400000))"

subsection \<open>String\<close>

text \<open>
  \<open>toLowerCase\<close> on the ASCII letters; \<open>includes_str\<close> is the substring test \<open>String.prototype.includes\<close>.
\<close>

definition lower_char :: "char \<Rightarrow> char" where
  "lower_char c =
     (let n = (of_char c :: nat) in if 65 \<le> n \<and> n \<le> 90 then char_of (n + 32) else c)"

definition toLowerCase :: "string \<Rightarrow> string" where
  "toLowerCase s = map lower_char s"

fun startsWith :: "string \<Rightarrow> string \<Rightarrow> bool" where
  "startsWith s [] = True"
| "startsWith [] (c # cs) = False"
| "startsWith (d # ds) (c # cs) = (d = c \<and> startsWith ds cs)"

fun includes_str :: "string \<Rightarrow> string \<Rightarrow> bool" where
  "includes_str [] sub = (sub = [])"
| "includes_str (d # ds) sub = (startsWith (d # ds) sub \<or> includes_str ds sub)"

definition join :: "string list \<Rightarrow> string \<Rightarrow> string" where
  "join xs sep = (case xs of [] \<Rightarrow> [] | y # ys \<Rightarrow> foldl (\<lambda>acc z. acc @ sep @ z) y ys)"

subsection \<open>Array\<close>

text \<open>
  \<open>Array.prototype.slice(start, end)\<close>: both arguments are converted with
  \<open>ToIntegerOrInfinity\<close>; a negative index counts from the end of the array, both
  indices are clamped to the array, and an empty range gives \<open>[]\<close>.
\<close>

fun relative_index :: "nat \<Rightarrow> integer_or_infinity \<Rightarrow> nat" where
  "relative_index len MinusInfinity = 0"
| "relative_index len PlusInfinity = len"
| "relative_index len (Finite i) =
     (if i < 0 then nat (max (int len + i) 0) else nat (min i (int len)))"

definition slice :: "'a list \<Rightarrow> number \<Rightarrow> number \<Rightarrow> 'a list" where
  "slice xs startIndex endIndex =
     (let len = length xs;
          k = relative_index len (ToIntegerOrInfinity startIndex);
          final = relative_index len (ToIntegerOrInfinity endIndex)
      in take (final - k) (drop k xs))"

text \<open>
  \<open>Array.prototype.sort(compareFn)\<close> is a stable sort: \<open>a\<close> stays before \<open>b\<close> unless
  \<open>compareFn(a, b) > 0\<close>. For a consistent comparator the result is the same for every
  stable algorithm; it is computed here by insertion from the right.
\<close>

fun insert_by :: "('a \<Rightarrow> 'a \<Rightarrow> int) \<Rightarrow> 'a \<Rightarrow> 'a list \<Rightarrow> 'a list" where
  "insert_by compareFn x [] = [x]"
| "insert_by compareFn x (y # ys) =
     (if compareFn x y \<le> 0 then x # y # ys else y # insert_by compareFn x ys)"

definition sort_by :: "('a \<Rightarrow> 'a \<Rightarrow> int) \<Rightarrow> 'a list \<Rightarrow> 'a list" where
  "sort_by compareFn xs = foldr (insert_by compareFn) xs []"

section \<open>Data model (types/index.ts, services/database.interface.ts)\<close>

record Social =
  twitter :: "string option"
  linkedin :: "string option"
  github :: "string option"

record Author =
  author_id :: string
  name :: string
  bio :: string
  avatar :: string
  email :: string
  social :: Social

record Post =
  post_id :: string
  title :: string
  slug :: string
  excerpt :: string
  content :: string
  coverImage :: string
  publishedAt :: Date
  authorId :: string
  tags :: "string list"

record PostWithAuthor = Post +
  author :: Author

datatype SortOrder = desc | asc

record PostFilters =
  search :: "string option"
  year :: "int option"
  month :: "int option"
  sortOrder :: SortOrder
  page :: "number option"
  perPage :: "number option"

record PaginatedPosts =
  posts :: "PostWithAuthor list"
  total_n :: int
  page_n :: number
  perPage_n :: number
  totalPages :: number

text \<open>The object spread \<open>{...post, author}\<close> and the projection back to the \<open>Post\<close> part.\<close>

definition withAuthor :: "Author \<Rightarrow> Post \<Rightarrow> PostWithAuthor" where
  "withAuthor a post = Post.extend post (PostWithAuthor.fields a)"

definition toPost :: "PostWithAuthor \<Rightarrow> Post" where
  "toPost p = Post.truncate p"

section \<open>MockDatabaseService (services/mock-database.service.ts): queries\<close>

record MockDatabaseService =
  this_author :: Author
  this_posts :: "Post list"

definition getAuthor :: "MockDatabaseService \<Rightarrow> Author" where
  "getAuthor this = this_author this"

text \<open>
  Optional chaining \<open>filters?.f\<close> on the optional argument, and JavaScript truthiness:
  an absent value, the empty string, the number 0 and \<open>NaN\<close> are falsy.
  \<open>or_default v d\<close> is \<open>v || d\<close>.
\<close>

definition opt :: "('f \<Rightarrow> 'a option) \<Rightarrow> 'f option \<Rightarrow> 'a option" where
  "opt field filters = (case filters of None \<Rightarrow> None | Some f \<Rightarrow> field f)"

definition truthy_number :: "int option \<Rightarrow> bool" where
  "truthy_number v = (case v of None \<Rightarrow> False | Some n \<Rightarrow> n \<noteq> 0)"

definition or_default :: "number option \<Rightarrow> number \<Rightarrow> number" where
  "or_default v d =
     (case v of None \<Rightarrow> d | Some n \<Rightarrow> if n = Num 0 \<or> n = NaN then d else n)"

text \<open>The three filter steps and the sort of \<open>getPosts\<close>, in the order of the source.\<close>

definition applySearchFilter :: "PostFilters option \<Rightarrow> Post list \<Rightarrow> Post list" where
  "applySearchFilter filters filteredPosts =
     (case opt search filters of
        None \<Rightarrow> filteredPosts
      | Some s \<Rightarrow>
          if s \<noteq> [] then
            (let searchLower = toLowerCase s
             in filter (\<lambda>post. includes_str (toLowerCase (title post)) searchLower \<or>
                                includes_str (toLowerCase (excerpt post)) searchLower)
                  filteredPosts)
          else filteredPosts)"

definition applyYearFilter :: "PostFilters option \<Rightarrow> Post list \<Rightarrow> Post list" where
  "applyYearFilter filters filteredPosts =
     (if truthy_number (opt year filters) then
        filter (\<lambda>post. Some (getFullYear (publishedAt post)) = opt year filters) filteredPosts
      else filteredPosts)"

definition applyMonthFilter :: "PostFilters option \<Rightarrow> Post list \<Rightarrow> Post list" where
  "applyMonthFilter filters filteredPosts =
     (if opt month filters \<noteq> None then
        filter (\<lambda>post. Some (getMonth (publishedAt post)) = opt month filters) filteredPosts
      else filteredPosts)"

definition compare_asc :: "Post \<Rightarrow> Post \<Rightarrow> int" where
  "compare_asc a b = getTime (publishedAt a) - getTime (publishedAt b)"

definition compare_desc :: "Post \<Rightarrow> Post \<Rightarrow> int" where
  "compare_desc a b = getTime (publishedAt b) - getTime (publishedAt a)"

definition applySortOrder :: "PostFilters option \<Rightarrow> Post list \<Rightarrow> Post list" where
  "applySortOrder filters filteredPosts =
     (if (case filters of None \<Rightarrow> False | Some f \<Rightarrow> sortOrder f = asc)
      then sort_by compare_asc filteredPosts
      else sort_by compare_desc filteredPosts)"

text \<open>
  \<open>filteredPosts\<close> is the value of the local variable of that name when \<open>getPosts\<close>
  reaches its pagination step: the posts matched by the filters, sorted.
\<close>

definition filteredPosts :: "MockDatabaseService \<Rightarrow> PostFilters option \<Rightarrow> Post list" where
  "filteredPosts this filters =
     applySortOrder filters
       (applyMonthFilter filters
         (applyYearFilter filters
           (applySearchFilter filters (this_posts this))))"

definition getPosts :: "MockDatabaseService \<Rightarrow> PostFilters option \<Rightarrow> PaginatedPosts" where
  "getPosts this filters =
     (let sorted = filteredPosts this filters;
          page = or_default (opt page filters) (Num 1);
          perPage = or_default (opt perPage filters) (Num 10);
          total = int (length sorted);
          totalPages = Math_ceil (num_div (Num (of_int total)) perPage);
          startIndex = num_mul (num_sub page (Num 1)) perPage;
          endIndex = num_add startIndex perPage;
          paginatedPosts = slice sorted startIndex endIndex;
          postsWithAuthor = map (withAuthor (this_author this)) paginatedPosts
      in \<lparr> posts = postsWithAuthor, total_n = total, page_n = page, perPage_n = perPage,
           totalPages = totalPages \<rparr>)"

definition getPostBySlug :: "MockDatabaseService \<Rightarrow> string \<Rightarrow> PostWithAuthor option" where
  "getPostBySlug this s =
     (case find (\<lambda>p. slug p = s) (this_posts this) of
        None \<Rightarrow> None
      | Some post \<Rightarrow> Some (withAuthor (this_author this) post))"

definition getRecentPosts :: "MockDatabaseService \<Rightarrow> int \<Rightarrow> PostWithAuthor list" where
  "getRecentPosts this limit =
     (let sortedPosts = sort_by compare_desc (this_posts this)
      in map (withAuthor (this_author this)) (slice sortedPosts (Num 0) (Num (of_int limit))))"

section \<open>The data generator\<close>

text \<open>
  The service draws all generated values from the global \<open>faker\<close> object of the
  third-party library faker-js, which is not part of the repository. The library is a
  parameter of the model: a generator state \<open>'s\<close> and, for each library function the
  service calls, a function from the state to the value produced and the next state.
  \<open>seed\<close> installs the state determined by the seed. \<open>helpers_slugify\<close> is a pure
  function of its argument. Options the source leaves out are written with the library's
  defaults (\<open>lorem.sentence()\<close> has 3 to 10 words, \<open>lorem.paragraph()\<close> 3 sentences).

  \<open>date_past years refDate\<close> is \<open>faker.date.past({ years, refDate })\<close>. The library
  measures the past from the reference date, and a call that passes no \<open>refDate\<close>, as
  the one in \<open>generatePosts\<close>, takes the current time for it. The reading of the clock
  is therefore an argument \<open>now\<close> of the functions below.
\<close>

record 's Faker =
  seed :: "int \<Rightarrow> 's"
  string_uuid :: "'s \<Rightarrow> string \<times> 's"
  person_fullName :: "'s \<Rightarrow> string \<times> 's"
  person_bio :: "'s \<Rightarrow> string \<times> 's"
  image_avatar :: "'s \<Rightarrow> string \<times> 's"
  image_url :: "int \<Rightarrow> int \<Rightarrow> 's \<Rightarrow> string \<times> 's"
  internet_email :: "'s \<Rightarrow> string \<times> 's"
  internet_username :: "'s \<Rightarrow> string \<times> 's"
  lorem_sentence :: "int \<Rightarrow> int \<Rightarrow> 's \<Rightarrow> string \<times> 's"
  lorem_paragraph :: "int \<Rightarrow> int \<Rightarrow> 's \<Rightarrow> string \<times> 's"
  company_catchPhrase :: "'s \<Rightarrow> string \<times> 's"
  date_past :: "int \<Rightarrow> int \<Rightarrow> 's \<Rightarrow> Date \<times> 's"
  number_int :: "int \<Rightarrow> int \<Rightarrow> 's \<Rightarrow> int \<times> 's"
  helpers_slugify :: "string \<Rightarrow> string"
  helpers_arrayElements :: "string list \<Rightarrow> int \<Rightarrow> int \<Rightarrow> 's \<Rightarrow> string list \<times> 's"

text \<open>
  The library's contract for \<open>date.past\<close>: for a positive number of years, the date
  lies between \<open>years\<close> times 365 days and one second before the reference date.
\<close>

definition date_past_in_range :: "'s Faker \<Rightarrow> bool" where
  "date_past_in_range F =
     (\<forall>years refDate s. 0 < years \<longrightarrow>
        refDate - years * 365 * 24 * 3600 * 1000 \<le> time (fst (date_past F years refDate s)) \<and>
        time (fst (date_past F years refDate s)) \<le> refDate - 1000)"

text \<open>
  \<open>faker.helpers.multiple(method, { count: { min, max } })\<close>: draw the count, then call
  \<open>method\<close> that many times.
\<close>

fun call_times :: "nat \<Rightarrow> ('s \<Rightarrow> 'a \<times> 's) \<Rightarrow> 's \<Rightarrow> 'a list \<times> 's" where
  "call_times 0 method s = ([], s)"
| "call_times (Suc n) method s =
     (let (x, s1) = method s; (xs, s2) = call_times n method s1 in (x # xs, s2))"

definition helpers_multiple ::
  "'s Faker \<Rightarrow> ('s \<Rightarrow> 'a \<times> 's) \<Rightarrow> int \<Rightarrow> int \<Rightarrow> 's \<Rightarrow> 'a list \<times> 's" where
  "helpers_multiple F method cmin cmax s =
     (let (n, s1) = number_int F cmin cmax s in call_times (nat n) method s1)"

section \<open>MockDatabaseService: construction\<close>

definition generateAuthor :: "'s Faker \<Rightarrow> 's \<Rightarrow> Author \<times> 's" where
  "generateAuthor F s =
     (let (v_id, s1) = string_uuid F s;
          (v_name, s2) = person_fullName F s1;
          (v_bio, s3) = person_bio F s2;
          (v_avatar, s4) = image_avatar F s3;
          (v_email, s5) = internet_email F s4;
          (v_twitter, s6) = internet_username F s5;
          (v_linkedin, s7) = internet_username F s6;
          (v_github, s8) = internet_username F s7
      in (\<lparr> author_id = v_id, name = v_name, bio = v_bio, avatar = v_avatar, email = v_email,
            social = \<lparr> twitter = Some v_twitter, linkedin = Some v_linkedin,
                       github = Some v_github \<rparr> \<rparr>, s8))"

text \<open>
  The \<open>map\<close> callback of \<open>generateMarkdownContent\<close>, with its index: every third
  paragraph after the first gets a heading, drawn from the generator.
\<close>

fun sections :: "'s Faker \<Rightarrow> nat \<Rightarrow> string list \<Rightarrow> 's \<Rightarrow> string list \<times> 's" where
  "sections F i [] s = ([], s)"
| "sections F i (p # ps) s =
     (if i mod 3 = 0 \<and> i > 0 then
        (let (h, s1) = lorem_sentence F 3 10 s;
             (rest, s2) = sections F (Suc i) ps s1
         in ((''## '' @ h @ [CHR 0x0A, CHR 0x0A] @ p) # rest, s2))
      else
        (let (rest, s2) = sections F (Suc i) ps s in (p # rest, s2)))"

definition generateMarkdownContent :: "'s Faker \<Rightarrow> 's \<Rightarrow> string \<times> 's" where
  "generateMarkdownContent F s =
     (let (paragraphs, s1) = helpers_multiple F (lorem_paragraph F 3 3) 5 10 s;
          (secs, s2) = sections F 0 paragraphs s1
      in (join secs [CHR 0x0A, CHR 0x0A], s2))"

definition tag_pool :: "string list" where
  "tag_pool = [''technology'', ''programming'', ''design'', ''web'', ''javascript'',
               ''typescript'', ''react'', ''astro'']"

text \<open>One iteration of the loop of \<open>generatePosts\<close>: the post pushed, and the next state.\<close>

definition generatePost :: "'s Faker \<Rightarrow> int \<Rightarrow> Author \<Rightarrow> 's \<Rightarrow> Post \<times> 's" where
  "generatePost F now a s =
     (let (v_title, s1) = lorem_sentence F 3 8 s;
          v_slug = toLowerCase (helpers_slugify F v_title);
          (v_id, s2) = string_uuid F s1;
          (v_excerpt, s3) = lorem_paragraph F 3 3 s2;
          (v_content, s4) = generateMarkdownContent F s3;
          (v_cover, s5) = image_url F 1200 630 s4;
          (v_published, s6) = date_past F 2 now s5;
          (v_tags, s7) = helpers_arrayElements F tag_pool 1 3 s6
      in (\<lparr> post_id = v_id, title = v_title, slug = v_slug, excerpt = v_excerpt,
            content = v_content, coverImage = v_cover, publishedAt = v_published,
            authorId = author_id a, tags = v_tags \<rparr>, s7))"

fun generatePosts_loop ::
  "'s Faker \<Rightarrow> int \<Rightarrow> Author \<Rightarrow> nat \<Rightarrow> Post list \<Rightarrow> 's \<Rightarrow> Post list \<times> 's" where
  "generatePosts_loop F now a 0 acc s = (acc, s)"
| "generatePosts_loop F now a (Suc n) acc s =
     (let (post, s1) = generatePost F now a s
      in generatePosts_loop F now a n (acc @ [post]) s1)"

definition generatePosts :: "'s Faker \<Rightarrow> int \<Rightarrow> Author \<Rightarrow> nat \<Rightarrow> 's \<Rightarrow> Post list \<times> 's" where
  "generatePosts F now a n s =
     (let (generated, s1) = generatePosts_loop F now a n [] s
      in (sort_by compare_desc generated, s1))"

text \<open>
  The constructor: seed the global generator with 123, generate the author, then 25
  posts. It returns the service and the state in which it leaves the generator.
\<close>

definition new_MockDatabaseService :: "'s Faker \<Rightarrow> int \<Rightarrow> MockDatabaseService \<times> 's" where
  "new_MockDatabaseService F now =
     (let s0 = seed F 123;
          (a, s1) = generateAuthor F s0;
          (ps, s2) = generatePosts F now a 25 s1
      in (\<lparr> this_author = a, this_posts = ps \<rparr>, s2))"

section \<open>MockDatabaseService: page content\<close>

record PageContent =
  pc_title :: string
  pc_subtitle :: "string option"
  pc_content :: "string list"

datatype js_error = TypeError

text \<open>
  \<open>content[page][locale]\<close>: reading a property an object does not have gives
  \<open>undefined\<close> (\<open>None\<close>), and reading a property of \<open>undefined\<close> throws a TypeError.
  String literals are the bytes of the source file; the characters outside ASCII in the
  Portuguese contact line are written as their UTF-8 bytes.
\<close>

definition lookup2 ::
  "(string \<times> (string \<times> 'a) list) list \<Rightarrow> string \<Rightarrow> string \<Rightarrow> js_error + 'a option" where
  "lookup2 obj k1 k2 =
     (case map_of obj k1 of
        None \<Rightarrow> Inl TypeError
      | Some inner \<Rightarrow> Inr (map_of inner k2))"

definition getPageContent ::
  "'s Faker \<Rightarrow> string \<Rightarrow> string \<Rightarrow> (js_error + PageContent option) \<times> 's" where
  "getPageContent F page_name locale =
     (let s0 = seed F 456;
          (home_pt_title, s1) = company_catchPhrase F s0;
          (home_pt_subtitle, s2) = lorem_sentence F 8 15 s1;
          (home_en_title, s3) = company_catchPhrase F s2;
          (home_en_subtitle, s4) = lorem_sentence F 8 15 s3;
          (about_pt_1, s5) = lorem_paragraph F 3 5 s4;
          (about_pt_2, s6) = lorem_paragraph F 3 5 s5;
          (about_pt_3, s7) = lorem_paragraph F 3 5 s6;
          (about_en_1, s8) = lorem_paragraph F 3 5 s7;
          (about_en_2, s9) = lorem_paragraph F 3 5 s8;
          (about_en_3, s10) = lorem_paragraph F 3 5 s9;
          (contact_pt_2, s11) = lorem_paragraph F 2 4 s10;
          (contact_en_2, s12) = lorem_paragraph F 2 4 s11;
          content_obj =
            [(''home'',
               [(''pt'', \<lparr> pc_title = home_pt_title, pc_subtitle = Some home_pt_subtitle,
                           pc_content = [] \<rparr>),
                (''en'', \<lparr> pc_title = home_en_title, pc_subtitle = Some home_en_subtitle,
                           pc_content = [] \<rparr>)]),
             (''about'',
               [(''pt'', \<lparr> pc_title = ''Sobre Este Blog'', pc_subtitle = None,
                           pc_content = [about_pt_1, about_pt_2, about_pt_3] \<rparr>),
                (''en'', \<lparr> pc_title = ''About This Blog'', pc_subtitle = None,
                           pc_content = [about_en_1, about_en_2, about_en_3] \<rparr>)]),
             (''contact'',
               [(''pt'', \<lparr> pc_title = ''Entre em Contato'', pc_subtitle = None,
                           pc_content = [''Sinta-se '' @ [CHR 0xC3, CHR 0x83, CHR 0xC2, CHR 0xA0] @
                                           '' vontade para entrar em contato!'',
                                         contact_pt_2] \<rparr>),
                (''en'', \<lparr> pc_title = ''Get In Touch'', pc_subtitle = None,
                           pc_content = [''Feel free to reach out!'', contact_en_2] \<rparr>)])]
      in (lookup2 content_obj page_name locale, s12))"

section \<open>Auxiliary notions and example data\<close>

text \<open>The sort key of both comparators.\<close>

definition pub_time :: "Post \<Rightarrow> int" where
  "pub_time p = getTime (publishedAt p)"

text \<open>A small service with three posts (November 2023, January 2023, November 2022),
  one with two posts published at the same instant, and a filter object with every
  optional field absent.\<close>

definition example_author :: Author where
  "example_author = \<lparr> author_id = ''author-1'', name = ''Ana'', bio = ''Writes.'',
     avatar = ''avatar.png'', email = ''ana@example.org'',
     social = \<lparr> twitter = Some ''ana'', linkedin = None, github = None \<rparr> \<rparr>"

definition example_post :: "string \<Rightarrow> int \<Rightarrow> Post" where
  "example_post i t = \<lparr> post_id = i, title = ''Post '' @ i, slug = ''post-'' @ i,
     excerpt = ''Excerpt'', content = ''Body'', coverImage = ''cover.png'',
     publishedAt = \<lparr> time = t \<rparr>, authorId = ''author-1'', tags = [''web''] \<rparr>"

definition example_service :: MockDatabaseService where
  "example_service = \<lparr> this_author = example_author,
     this_posts = [example_post ''3'' 1700000000000, example_post ''2'' 1673000000000,
                   example_post ''1'' 1668000000000] \<rparr>"

definition tied_service :: MockDatabaseService where
  "tied_service = \<lparr> this_author = example_author,
     this_posts = [example_post ''a'' 1700000000000, example_post ''b'' 1700000000000] \<rparr>"

definition no_filters :: PostFilters where
  "no_filters = \<lparr> search = None, year = None, month = None, sortOrder = desc,
     page = None, perPage = None \<rparr>"

text \<open>The ceiling of the exact quotient of two integers.\<close>

definition ceil_div :: "int \<Rightarrow> int \<Rightarrow> int" where
  "ceil_div a b = \<lceil>rat_of_int a / rat_of_int b\<rceil>"

text \<open>
  What a caller who walks through a query page by page obtains: the number of posts on
  each of the pages 1 to \<open>totalPages\<close> (there is no such page when \<open>totalPages\<close> is
  below 1 or not finite), and the last of these pages.
\<close>

definition page_lengths :: "MockDatabaseService \<Rightarrow> PostFilters \<Rightarrow> int list" where
  "page_lengths this f =
     (case totalPages (getPosts this (Some f)) of
        Num n \<Rightarrow>
          map (\<lambda>k. int (length (posts (getPosts this (Some (f\<lparr>page := Some (Num (of_int k))\<rparr>))))))
            [1..\<lfloor>n\<rfloor>]
      | Infinity \<Rightarrow> []
      | NegInfinity \<Rightarrow> []
      | NaN \<Rightarrow> [])"

definition last_page :: "MockDatabaseService \<Rightarrow> PostFilters \<Rightarrow> PaginatedPosts" where
  "last_page this f =
     getPosts this (Some (f\<lparr>page := Some (totalPages (getPosts this (Some f)))\<rparr>))"

text \<open>A service with eleven posts, all of November 2023.\<close>

definition november_service :: MockDatabaseService where
  "november_service = \<lparr> this_author = example_author,
     this_posts =
       [example_post ''n11'' 1700000000010, example_post ''n10'' 1700000000009,
        example_post ''n9'' 1700000000008, example_post ''n8'' 1700000000007,
        example_post ''n7'' 1700000000006, example_post ''n6'' 1700000000005,
        example_post ''n5'' 1700000000004, example_post ''n4'' 1700000000003,
        example_post ''n3'' 1700000000002, example_post ''n2'' 1700000000001,
        example_post ''n1'' 1700000000000] \<rparr>"

text \<open>
  A small instance of the generator, for evaluating the construction on concrete
  values: the state counts the identifiers handed out, an identifier is that many plus
  one letters, every text is a fixed phrase, and a date in the past is one second before
  the reference date.
\<close>

definition toy_faker :: "nat Faker" where
  "toy_faker = \<lparr>
     seed = (\<lambda>n. 0),
     string_uuid = (\<lambda>s. (replicate (Suc s) CHR ''x'', Suc s)),
     person_fullName = (\<lambda>s. (''Ana Lima'', s)),
     person_bio = (\<lambda>s. (''Writer'', s)),
     image_avatar = (\<lambda>s. (''avatar.png'', s)),
     image_url = (\<lambda>w h s. (''cover.png'', s)),
     internet_email = (\<lambda>s. (''ana@example.org'', s)),
     internet_username = (\<lambda>s. (''ana'', s)),
     lorem_sentence = (\<lambda>lo hi s. (''Lorem Ipsum dolor.'', s)),
     lorem_paragraph = (\<lambda>lo hi s. (''Lorem ipsum.'', s)),
     company_catchPhrase = (\<lambda>s. (''Simple things first'', s)),
     date_past = (\<lambda>years refDate s. (\<lparr> time = refDate - 1000 \<rparr>, s)),
     number_int = (\<lambda>lo hi s. (lo, s)),
     helpers_slugify = map (\<lambda>c. if c = CHR '' '' then CHR ''-'' else c),
     helpers_arrayElements = (\<lambda>xs lo hi s. (take (nat lo) xs, s)) \<rparr>"

section \<open>Basic facts about the built-ins\<close>

subsection \<open>The stable sort\<close>

lemma insert_by_insort_key:
  assumes "\<And>x y. (cmp x y \<le> 0) = (f x \<le> f y)"
  shows "insert_by cmp x xs = insort_key f x xs"
  by (induction xs) (simp_all add: assms)

lemma sort_by_sort_key:
  assumes "\<And>x y. (cmp x y \<le> 0) = (f x \<le> f y)"
  shows "sort_by cmp xs = sort_key f xs"
proof -
  have "insert_by cmp = insort_key f"
    by (intro ext) (rule insert_by_insort_key [OF assms])
  then show ?thesis
    by (simp add: sort_by_def sort_key_def)
qed

lemma sort_by_asc: "sort_by compare_asc xs = sort_key pub_time xs"
  by (rule sort_by_sort_key) (simp add: compare_asc_def pub_time_def)

lemma sort_by_desc: "sort_by compare_desc xs = sort_key (\<lambda>p. - pub_time p) xs"
  by (rule sort_by_sort_key) (simp add: compare_desc_def pub_time_def)

subsection \<open>slice\<close>

lemma ToIntegerOrInfinity_of_int: "ToIntegerOrInfinity (Num (of_int i)) = Finite i"
  by simp

lemma slice_int:
  "slice xs (Num (of_int a)) (Num (of_int b)) =
     (let len = int (length xs);
          k = (if a < 0 then max (len + a) 0 else min a len);
          final = (if b < 0 then max (len + b) 0 else min b len)
      in take (nat (final - k)) (drop (nat k) xs))"
proof -
  have idx: "relative_index (length xs) (Finite i) =
      nat (if i < 0 then max (int (length xs) + i) 0 else min i (int (length xs)))" for i
    by simp
  have "nat f - nat k = nat (f - k)" if "0 \<le> k" for f k :: int
    using that by linarith
  moreover have "0 \<le> (if a < 0 then max (int (length xs) + a) 0 else min a (int (length xs)))"
    by simp
  ultimately show ?thesis
    by (simp only: slice_def ToIntegerOrInfinity_of_int idx Let_def)
qed

lemma slice_from_0:
  "0 \<le> limit \<Longrightarrow> slice xs (Num 0) (Num (of_int limit)) = take (nat limit) xs"
  using slice_int [of xs 0 limit] by (simp add: Let_def min_def)

lemma slice_neg_end:
  assumes "limit < 0"
  shows "slice xs (Num 0) (Num (of_int limit)) = take (length xs - nat (- limit)) xs"
proof -
  have "nat (max (int (length xs) + limit) 0) = length xs - nat (- limit)"
    using assms by (simp add: max_def) linarith
  then show ?thesis
    using assms slice_int [of xs 0 limit] by (simp add: Let_def)
qed

lemma slice_nonneg:
  assumes "0 \<le> st" "0 \<le> pp"
  shows "slice xs (Num (of_int st)) (Num (of_int (st + pp))) = take (nat pp) (drop (nat st) xs)"
proof -
  let ?len = "int (length xs)"
  have "slice xs (Num (of_int st)) (Num (of_int (st + pp))) =
      take (nat (min (st + pp) ?len - min st ?len)) (drop (nat (min st ?len)) xs)"
    using assms by (simp only: slice_int Let_def) simp
  also have "\<dots> = take (nat pp) (drop (nat st) xs)"
  proof (cases "st \<le> ?len")
    case True
    then show ?thesis using assms
      by (auto simp add: min_def)
  next
    case False
    then show ?thesis using assms
      by (auto simp add: min_def)
  qed
  finally show ?thesis .
qed

lemma slice_page:
  assumes "1 \<le> pg" "1 \<le> pp"
  shows "slice xs (Num (of_int ((pg - 1) * pp))) (Num (of_int ((pg - 1) * pp + pp))) =
           take (nat pp) (drop (nat ((pg - 1) * pp)) xs)"
  using assms by (intro slice_nonneg) simp_all

lemma slice_whole:
  assumes "int (length xs) \<le> pp"
  shows "slice xs (Num 0) (Num (of_int pp)) = xs"
  using assms slice_int [of xs 0 pp] by (simp add: Let_def min_def)


lemma length_slice_le:
  assumes "1 \<le> pp"
  shows "int (length (slice xs (Num (of_int st)) (Num (of_int (st + pp))))) \<le> pp"
proof -
  have "int (length (take (nat (f - k)) (drop (nat k) xs))) \<le> pp"
    if "f - k \<le> pp" for f k :: int
    using that assms by simp
  moreover have "(if st + pp < 0 then max (int (length xs) + (st + pp)) 0
        else min (st + pp) (int (length xs)))
      - (if st < 0 then max (int (length xs) + st) 0 else min st (int (length xs))) \<le> pp"
    using assms by (simp add: min_def max_def)
  ultimately show ?thesis
    by (simp only: slice_int Let_def)
qed

subsection \<open>Arithmetic on integer-valued numbers\<close>

lemma page_start_int:
  "num_mul (num_sub (Num (of_int pg)) (Num 1)) (Num (of_int pp)) = Num (of_int ((pg - 1) * pp))"
  by (simp add: num_sub_def)

lemma page_end_int:
  "num_add (Num (of_int st)) (Num (of_int pp)) = Num (of_int (st + pp))"
  by simp

lemma total_pages_int:
  assumes "pp \<noteq> 0"
  shows "Math_ceil (num_div (Num (of_int n)) (Num (of_int pp))) =
           Num (of_int \<lceil>rat_of_int n / rat_of_int pp\<rceil>)"
  using assms by simp

lemma or_default_int:
  "k \<noteq> 0 \<Longrightarrow> or_default (Some (Num (of_int k))) d = Num (of_int k)"
  by (simp add: or_default_def)

subsection \<open>Attaching the author\<close>

lemma toPost_withAuthor: "toPost (withAuthor a p) = p"
  by (simp add: toPost_def withAuthor_def Post.truncate_def Post.extend_def)

lemma map_toPost_withAuthor: "map toPost (map (withAuthor a) xs) = xs"
  by (induction xs) (simp_all add: toPost_withAuthor)

lemma author_withAuthor: "author (withAuthor a p) = a"
  by (simp add: withAuthor_def Post.extend_def PostWithAuthor.fields_def)

lemma withAuthor_fields:
  "post_id (withAuthor a p) = post_id p" "slug (withAuthor a p) = slug p"
  "publishedAt (withAuthor a p) = publishedAt p"
  by (simp_all add: withAuthor_def Post.extend_def)


section \<open>Facts about the stages of getPosts\<close>

lemma applySortOrder_sort_key:
  "applySortOrder filters xs =
     (if (case filters of None \<Rightarrow> False | Some f \<Rightarrow> sortOrder f = asc)
      then sort_key pub_time xs else sort_key (\<lambda>p. - pub_time p) xs)"
  by (simp add: applySortOrder_def sort_by_asc sort_by_desc)

lemma mset_applySortOrder: "mset (applySortOrder filters xs) = mset xs"
  by (simp add: applySortOrder_sort_key)

lemma length_applySortOrder: "length (applySortOrder filters xs) = length xs"
  by (simp add: applySortOrder_sort_key)



lemma filteredPosts_month:
  "filteredPosts this (Some (f\<lparr>month := Some M\<rparr>)) =
     filter (\<lambda>p. getMonth (publishedAt p) = M)
       (filteredPosts this (Some (f\<lparr>month := None\<rparr>)))"
  by (simp add: filteredPosts_def applyMonthFilter_def applyYearFilter_def
        applySearchFilter_def opt_def truthy_number_def applySortOrder_sort_key filter_sort)

lemma total_getPosts:
  "total_n (getPosts this filters) = int (length (filteredPosts this filters))"
  by (simp add: getPosts_def Let_def)


section \<open>Facts about getRecentPosts and the descending sort\<close>

lemma getRecentPosts_take:
  "getRecentPosts this limit =
     map (withAuthor (this_author this))
       (take (if 0 \<le> limit then nat limit else length (this_posts this) - nat (- limit))
          (sort_key (\<lambda>p. - pub_time p) (this_posts this)))"
  by (simp add: getRecentPosts_def Let_def sort_by_desc slice_from_0 slice_neg_end)

lemma sorted_desc_sort_key:
  "sorted_wrt (\<lambda>a b. pub_time b \<le> pub_time a) (sort_key (\<lambda>p. - pub_time p) xs)"
proof -
  have "sorted (map (\<lambda>p. - pub_time p) (sort_key (\<lambda>p. - pub_time p) xs))"
    by (rule sorted_sort_key)
  then show ?thesis
    by (simp add: sorted_map)
qed

lemma strict_desc_sort_key:
  assumes "distinct (map pub_time xs)"
  shows "sorted_wrt (\<lambda>a b. pub_time b < pub_time a) (sort_key (\<lambda>p. - pub_time p) xs)"
proof -
  let ?s = "sort_key (\<lambda>p. - pub_time p) xs"
  have "distinct (map pub_time ?s)"
    using assms by (metis distinct_map distinct_sort inj_on_cong set_sort)
  then have d: "distinct (map (\<lambda>p. - pub_time p) ?s)"
    by (simp add: distinct_map inj_on_def)
  have "sorted (map (\<lambda>p. - pub_time p) ?s)"
    by (rule sorted_sort_key)
  with d have "sorted_wrt (<) (map (\<lambda>p. - pub_time p) ?s)"
    by (simp add: strict_sorted_iff)
  then show ?thesis
    by (simp add: sorted_wrt_map)
qed

lemma sorted_wrt_take: "sorted_wrt R xs \<Longrightarrow> sorted_wrt R (take n xs)"
  by (metis append_take_drop_id sorted_wrt_append)

lemma sorted_wrt_withAuthor:
  "sorted_wrt (\<lambda>a b. R (pub_time a) (pub_time b)) xs \<Longrightarrow>
   sorted_wrt (\<lambda>a b. R (getTime (publishedAt a)) (getTime (publishedAt b))) (map (withAuthor au) xs)"
  by (simp add: sorted_wrt_map withAuthor_fields pub_time_def)

section \<open>Facts about the pagination step\<close>

lemma ceil_div_less_iff:
  assumes "0 < pp"
  shows "(ceil_div n pp < pg) = (n \<le> (pg - 1) * pp)"
proof -
  have "(ceil_div n pp < pg) = (ceil_div n pp \<le> pg - 1)"
    by auto
  also have "\<dots> = (rat_of_int n / rat_of_int pp \<le> rat_of_int (pg - 1))"
    by (simp only: ceil_div_def ceiling_le_iff)
  also have "\<dots> = (rat_of_int n \<le> rat_of_int (pg - 1) * rat_of_int pp)"
    using assms by (simp add: pos_divide_le_eq)
  also have "\<dots> = (n \<le> (pg - 1) * pp)"
    by (simp only: of_int_mult [symmetric] of_int_le_iff)
  finally show ?thesis .
qed

lemma getPosts_fields:
  "posts (getPosts this filters) =
     map (withAuthor (this_author this))
       (slice (filteredPosts this filters)
          (num_mul (num_sub (page_n (getPosts this filters)) (Num 1))
             (perPage_n (getPosts this filters)))
          (num_add (num_mul (num_sub (page_n (getPosts this filters)) (Num 1))
             (perPage_n (getPosts this filters))) (perPage_n (getPosts this filters))))"
  "totalPages (getPosts this filters) =
     Math_ceil (num_div (Num (of_int (total_n (getPosts this filters))))
       (perPage_n (getPosts this filters)))"
  "page_n (getPosts this filters) = or_default (opt page filters) (Num 1)"
  "perPage_n (getPosts this filters) = or_default (opt perPage filters) (Num 10)"
  by (simp_all add: getPosts_def Let_def)

lemma getPosts_int:
  assumes "page_n (getPosts this filters) = Num (of_int pg)"
    and "perPage_n (getPosts this filters) = Num (of_int pp)"
  shows "posts (getPosts this filters) =
     map (withAuthor (this_author this))
       (slice (filteredPosts this filters)
          (Num (of_int ((pg - 1) * pp))) (Num (of_int ((pg - 1) * pp + pp))))"
  using getPosts_fields(1) [of this filters]
  by (simp only: assms page_start_int page_end_int)

lemma totalPages_int:
  assumes "perPage_n (getPosts this filters) = Num (of_int pp)" and "pp \<noteq> 0"
  shows "totalPages (getPosts this filters) =
     Num (of_int (ceil_div (total_n (getPosts this filters)) pp))"
  using getPosts_fields(2) [of this filters]
    total_pages_int [OF assms(2), of "total_n (getPosts this filters)"]
  by (simp only: assms(1) ceil_div_def)

lemma take_drop_Nil_iff: "0 < n \<Longrightarrow> (take n (drop k xs) = []) = (length xs \<le> k)"
  by auto

section \<open>Facts about walking through the pages\<close>

lemma sum_list_chunks:
  "sum_list (map (\<lambda>k. length (take p (drop (k * p) xs))) [0..<n]) = min (n * p) (length xs)"
proof (induction n)
  case 0
  then show ?case by simp
next
  case (Suc n)
  have "min m l + min (l - m) p = min (p + m) l" for m l :: nat
    by linarith
  then have "min (n * p) (length xs) + min (length xs - n * p) p = min (p + n * p) (length xs)" .
  with Suc show ?case
    by simp
qed

lemma upto_from_1: "[1..int n] = map (\<lambda>i. int i + 1) [0..<n]"
proof (induction n)
  case 0
  then show ?case by simp
next
  case (Suc n)
  have "[1..int (Suc n)] = [1..int n] @ [int n + 1]"
    using upto_rec2 [of 1 "int (Suc n)"] by simp
  with Suc show ?case
    by simp
qed

lemma filteredPosts_page:
  "filteredPosts this (Some (f\<lparr>page := p\<rparr>)) = filteredPosts this (Some f)"
  by (simp add: filteredPosts_def applySortOrder_def applyMonthFilter_def applyYearFilter_def
        applySearchFilter_def opt_def)

lemma length_page:
  assumes "1 \<le> k" and "perPage_n (getPosts this (Some f)) = Num (of_int pp)" and "1 \<le> pp"
  shows "length (posts (getPosts this (Some (f\<lparr>page := Some (Num (of_int k))\<rparr>)))) =
     length (take (nat pp) (drop (nat (k - 1) * nat pp) (filteredPosts this (Some f))))"
proof -
  let ?g = "Some (f\<lparr>page := Some (Num (of_int k))\<rparr>)"
  have pp: "perPage_n (getPosts this ?g) = Num (of_int pp)"
    using assms(2) by (simp add: getPosts_fields opt_def)
  have pg: "page_n (getPosts this ?g) = Num (of_int k)"
    using assms(1) by (simp add: getPosts_fields opt_def or_default_int)
  have n: "nat ((k - 1) * pp) = nat (k - 1) * nat pp"
    using assms by (simp add: nat_mult_distrib)
  have "posts (getPosts this ?g) = map (withAuthor (this_author this))
      (slice (filteredPosts this (Some f))
         (Num (of_int ((k - 1) * pp))) (Num (of_int ((k - 1) * pp + pp))))"
    using getPosts_int [OF pg pp] by (simp only: filteredPosts_page)
  then have "posts (getPosts this ?g) = map (withAuthor (this_author this))
      (take (nat pp) (drop (nat ((k - 1) * pp)) (filteredPosts this (Some f))))"
    using assms by (simp only: slice_page)
  then show ?thesis
    by (simp add: n)
qed

lemma total_le_pages:
  assumes "0 < pp"
  shows "n \<le> ceil_div n pp * pp" and "0 < n \<Longrightarrow> (ceil_div n pp - 1) * pp < n"
    and "0 \<le> n \<Longrightarrow> 0 \<le> ceil_div n pp"
proof -
  show "n \<le> ceil_div n pp * pp"
    using ceil_div_less_iff [OF assms, of n "ceil_div n pp + 1"] by simp
  show "(ceil_div n pp - 1) * pp < n" if "0 < n"
    using ceil_div_less_iff [OF assms, of n "ceil_div n pp"] by simp
  show "0 \<le> ceil_div n pp" if "0 \<le> n"
  proof -
    have "0 \<le> rat_of_int n / rat_of_int pp"
      using that assms by simp
    then have "\<lceil>0::rat\<rceil> \<le> \<lceil>rat_of_int n / rat_of_int pp\<rceil>"
      by (rule ceiling_mono)
    then show ?thesis
      by (simp add: ceil_div_def)
  qed
qed

section \<open>Facts about the two sort orders\<close>

lemma sort_key_asc_rev_desc:
  assumes "distinct (map pub_time xs)"
  shows "sort_key pub_time xs = rev (sort_key (\<lambda>p. - pub_time p) xs)"
proof -
  let ?a = "sort_key pub_time xs"
  let ?d = "sort_key (\<lambda>p. - pub_time p) xs"
  have inj: "inj_on pub_time (set xs)"
    using assms by (simp add: distinct_map)
  have da: "distinct (map pub_time ?a)"
    using assms by (simp add: distinct_map)
  have "distinct (map pub_time ?d)"
    using assms by (simp add: distinct_map)
  then have dd: "distinct (map pub_time (rev ?d))"
    by (simp add: rev_map [symmetric] del: rev_map)
  have sa: "sorted (map pub_time ?a)"
    by (rule sorted_sort_key)
  have "sorted_wrt (\<lambda>a b. pub_time b \<le> pub_time a) ?d"
    by (rule sorted_desc_sort_key)
  then have sd: "sorted (map pub_time (rev ?d))"
    by (simp add: sorted_wrt_map sorted_wrt_rev)
  have "set (map pub_time ?a) = set (map pub_time (rev ?d))"
    by simp
  with sa da sd dd have "map pub_time ?a = map pub_time (rev ?d)"
    by (rule sorted_distinct_set_unique)
  moreover have "inj_on pub_time (set ?a \<union> set (rev ?d))"
    using inj by simp
  ultimately show ?thesis
    by (rule map_inj_on)
qed

lemma filteredPosts_sortOrder:
  "filteredPosts this (Some (f\<lparr>sortOrder := asc\<rparr>)) =
     sort_key pub_time (applyMonthFilter (Some f) (applyYearFilter (Some f)
       (applySearchFilter (Some f) (this_posts this))))"
  "filteredPosts this (Some (f\<lparr>sortOrder := desc\<rparr>)) =
     sort_key (\<lambda>p. - pub_time p) (applyMonthFilter (Some f) (applyYearFilter (Some f)
       (applySearchFilter (Some f) (this_posts this))))"
  by (simp_all add: filteredPosts_def applySortOrder_sort_key applyMonthFilter_def
        applyYearFilter_def applySearchFilter_def opt_def)

section \<open>Facts about the construction\<close>

lemma generatePost_publishedAt:
  "\<exists>s'. publishedAt (fst (generatePost F now a s)) = fst (date_past F 2 now s')"
  by (auto simp add: generatePost_def split_beta Let_def)

lemma generatePosts_loop_all:
  assumes "\<And>s. P (fst (generatePost F now a s))" and "\<forall>p \<in> set acc. P p"
  shows "\<forall>p \<in> set (fst (generatePosts_loop F now a n acc s)). P p"
  using assms(2)
proof (induction n arbitrary: acc s)
  case 0
  then show ?case by simp
next
  case (Suc n)
  have "\<forall>p \<in> set (acc @ [fst (generatePost F now a s)]). P p"
    using Suc.prems assms(1) by simp
  from Suc.IH [OF this] show ?case
    by (simp add: split_beta)
qed

lemma length_generatePosts_loop:
  "length (fst (generatePosts_loop F now a n acc s)) = length acc + n"
  by (induction n arbitrary: acc s) (simp_all add: split_beta)

lemma this_posts_new:
  "\<exists>a s. this_posts (fst (new_MockDatabaseService F now)) =
     sort_key (\<lambda>p. - pub_time p) (fst (generatePosts_loop F now a 25 [] s))"
  by (auto simp add: new_MockDatabaseService_def generatePosts_def split_beta Let_def sort_by_desc)

lemma new_posts_all:
  assumes "\<And>a s. P (fst (generatePost F now a s))"
  shows "\<forall>p \<in> set (this_posts (fst (new_MockDatabaseService F now))). P p"
proof -
  obtain a s where ps: "this_posts (fst (new_MockDatabaseService F now)) =
     sort_key (\<lambda>p. - pub_time p) (fst (generatePosts_loop F now a 25 [] s))"
    using this_posts_new [of F now] by auto
  have "\<forall>p \<in> set (fst (generatePosts_loop F now a 25 [] s)). P p"
    by (rule generatePosts_loop_all) (simp_all add: assms)
  then show ?thesis
    by (simp add: ps)
qed

lemma length_new_posts: "length (this_posts (fst (new_MockDatabaseService F now))) = 25"
proof -
  obtain a s where ps: "this_posts (fst (new_MockDatabaseService F now)) =
     sort_key (\<lambda>p. - pub_time p) (fst (generatePosts_loop F now a 25 [] s))"
    using this_posts_new [of F now] by auto
  show ?thesis
    by (simp add: ps length_generatePosts_loop)
qed

lemma sorted_new_posts:
  "sorted (map (\<lambda>p. - pub_time p) (this_posts (fst (new_MockDatabaseService F now))))"
proof -
  obtain a s where ps: "this_posts (fst (new_MockDatabaseService F now)) =
     sort_key (\<lambda>p. - pub_time p) (fst (generatePosts_loop F now a 25 [] s))"
    using this_posts_new [of F now] by auto
  show ?thesis
    unfolding ps by (rule sorted_sort_key)
qed

lemma getPostBySlug_None_iff:
  "(getPostBySlug this s = None) = (s \<notin> slug ` set (this_posts this))"
proof -
  have "(find (\<lambda>p. slug p = s) xs = None) = (s \<notin> slug ` set xs)" for xs :: "Post list"
    by (auto simp add: find_None_iff)
  from this [of "this_posts this"] show ?thesis
    by (cases "find (\<lambda>p. slug p = s) (this_posts this)") (simp_all add: getPostBySlug_def)
qed

section \<open>Facts about the dates of the generated posts\<close>

lemma generatePost_time_range:
  assumes "date_past_in_range F"
  shows "now - 2 * 365 * 24 * 3600 * 1000 \<le> time (publishedAt (fst (generatePost F now a s)))
       \<and> time (publishedAt (fst (generatePost F now a s))) \<le> now - 1000"
proof -
  obtain s' where "publishedAt (fst (generatePost F now a s)) = fst (date_past F 2 now s')"
    using generatePost_publishedAt [of F now a s] by auto
  moreover have "now - 2 * 365 * 24 * 3600 * 1000 \<le> time (fst (date_past F 2 now s'))
       \<and> time (fst (date_past F 2 now s')) \<le> now - 1000"
    using assms [unfolded date_past_in_range_def, rule_format, of 2 now s'] by simp
  ultimately show ?thesis
    by simp
qed

lemma author_new: "this_author (fst (new_MockDatabaseService F now)) = fst (generateAuthor F (seed F 123))"
  by (simp add: new_MockDatabaseService_def split_beta Let_def)

lemma toy_date_past_in_range: "date_past_in_range toy_faker"
  by (simp add: date_past_in_range_def toy_faker_def)

section \<open>Facts about the page content\<close>

lemma lookup2_simps:
  "lookup2 ((k, inner) # rest) k1 k2 =
     (if k = k1 then Inr (map_of inner k2) else lookup2 rest k1 k2)"
  by (simp add: lookup2_def)

lemma getPageContent_home:
  assumes "locale = ''pt'' \<or> locale = ''en''"
  shows "\<exists>c. fst (getPageContent F ''home'' locale) = Inr (Some c)
     \<and> pc_content c = []
     \<and> (\<exists>s. pc_title c = fst (company_catchPhrase F s))
     \<and> (\<exists>s. pc_subtitle c = Some (fst (lorem_sentence F 8 15 s)))"
  using assms
proof
  assume "locale = ''pt''"
  then show ?thesis
    unfolding getPageContent_def Let_def split_beta fst_conv lookup2_simps
    by simp blast
next
  assume "locale = ''en''"
  then show ?thesis
    unfolding getPageContent_def Let_def split_beta fst_conv lookup2_simps
    by simp blast
qed

lemma getPageContent_about:
  assumes "locale = ''pt'' \<or> locale = ''en''"
  shows "\<exists>c. fst (getPageContent F ''about'' locale) = Inr (Some c)"
  using assms
proof
  assume "locale = ''pt''"
  then show ?thesis
    unfolding getPageContent_def Let_def split_beta fst_conv lookup2_simps
    by simp
next
  assume "locale = ''en''"
  then show ?thesis
    unfolding getPageContent_def Let_def split_beta fst_conv lookup2_simps
    by simp
qed

lemma getPageContent_contact:
  assumes "locale = ''pt'' \<or> locale = ''en''"
  shows "\<exists>c. fst (getPageContent F ''contact'' locale) = Inr (Some c)"
  using assms
proof
  assume "locale = ''pt''"
  then show ?thesis
    unfolding getPageContent_def Let_def split_beta fst_conv lookup2_simps
    by simp
next
  assume "locale = ''en''"
  then show ?thesis
    unfolding getPageContent_def Let_def split_beta fst_conv lookup2_simps
    by simp
qed

section \<open>The calendar filter\<close>




section \<open>Recent posts\<close>

text \<open>
  Claim C2 says that the posts come strictly descending and that every limit below 1
  gives the empty sequence. \<open>slice(0, limit)\<close> with a negative limit drops that many
  posts from the end instead: in the example service of three posts the limit -1
  returns two posts. The sort is stable and the comparator is the difference of the time
  values, so two posts published at the same instant follow each other with equal times.
\<close>

theorem getRecentPosts_counterexample:
  "map post_id (getRecentPosts example_service (- 1)) = [''3'', ''2'']
   \<and> map getTime (map publishedAt (getRecentPosts tied_service 2))
       = [1700000000000, 1700000000000]"
  by code_simp

text \<open>
  Claim C2, as the code has it: \<open>getRecentPosts(limit)\<close> returns a prefix of the
  posts sorted by \<open>publishedAt\<close>, newest first, in non-increasing order, and in
  strictly decreasing order when no two posts share a \<open>publishedAt\<close>; every post
  returned carries the author of the service, and no post left out is more recent than a
  post returned. The sort is stable: posts published at the same instant come in the
  order in which they are stored, the returned ones before those left out. The prefix has \<open>min(limit, N)\<close> posts for \<open>limit \<ge> 0\<close>, so the limit
  0 gives the empty sequence, and \<open>N - |limit|\<close> posts (none when that is negative) for
  a negative limit, where \<open>N\<close> is the number of posts.
\<close>

theorem getRecentPosts_prefix:
  "length (getRecentPosts this limit) =
     (if 0 \<le> limit then min (nat limit) (length (this_posts this))
      else length (this_posts this) - nat (- limit))
   \<and> sorted_wrt (\<lambda>a b. getTime (publishedAt b) \<le> getTime (publishedAt a))
        (getRecentPosts this limit)
   \<and> (distinct (map (\<lambda>p. getTime (publishedAt p)) (this_posts this)) \<longrightarrow>
        sorted_wrt (\<lambda>a b. getTime (publishedAt b) < getTime (publishedAt a))
          (getRecentPosts this limit))
   \<and> (\<forall>q \<in> set (getRecentPosts this limit). author q = this_author this)
   \<and> (\<exists>rest. mset (map toPost (getRecentPosts this limit)) + mset rest = mset (this_posts this)
        \<and> (\<forall>q \<in> set (getRecentPosts this limit). \<forall>p \<in> set rest.
              getTime (publishedAt p) \<le> getTime (publishedAt q))
        \<and> (\<forall>t. filter (\<lambda>p. getTime (publishedAt p) = t)
                   (map toPost (getRecentPosts this limit) @ rest) =
                 filter (\<lambda>p. getTime (publishedAt p) = t) (this_posts this)))"
proof -
  let ?n = "if 0 \<le> limit then nat limit else length (this_posts this) - nat (- limit)"
  let ?s = "sort_key (\<lambda>p. - pub_time p) (this_posts this)"
  let ?a = "this_author this"
  have r: "getRecentPosts this limit = map (withAuthor ?a) (take ?n ?s)"
    by (rule getRecentPosts_take)
  have len: "length (getRecentPosts this limit) =
     (if 0 \<le> limit then min (nat limit) (length (this_posts this))
      else length (this_posts this) - nat (- limit))"
  proof (cases "0 \<le> limit")
    case True
    then show ?thesis by (simp add: r min_def)
  next
    case False
    have "min (length (this_posts this)) (length (this_posts this) - nat (- limit))
        = length (this_posts this) - nat (- limit)"
      by simp
    with False show ?thesis by (simp add: r)
  qed
  have srt: "sorted_wrt (\<lambda>a b. getTime (publishedAt b) \<le> getTime (publishedAt a))
        (getRecentPosts this limit)"
    unfolding r
    by (intro sorted_wrt_withAuthor [where R = "\<lambda>x y. y \<le> x"] sorted_wrt_take
        sorted_desc_sort_key)
  have strict: "sorted_wrt (\<lambda>a b. getTime (publishedAt b) < getTime (publishedAt a))
          (getRecentPosts this limit)"
    if "distinct (map (\<lambda>p. getTime (publishedAt p)) (this_posts this))"
  proof -
    from that have "distinct (map pub_time (this_posts this))"
      by (simp add: pub_time_def [abs_def])
    then show ?thesis
      unfolding r
      by (intro sorted_wrt_withAuthor [where R = "\<lambda>x y. y < x"] sorted_wrt_take
          strict_desc_sort_key)
  qed
  have auth: "\<forall>q \<in> set (getRecentPosts this limit). author q = this_author this"
    by (auto simp add: r author_withAuthor)
  have split: "mset (map toPost (getRecentPosts this limit)) + mset (drop ?n ?s)
      = mset (this_posts this)"
  proof -
    have "mset (take ?n ?s) + mset (drop ?n ?s) = mset ?s"
      by (metis append_take_drop_id mset_append)
    then show ?thesis
      by (simp only: r map_toPost_withAuthor mset_sort)
  qed
  have whole: "sorted_wrt (\<lambda>a b. pub_time b \<le> pub_time a) (take ?n ?s @ drop ?n ?s)"
    by (simp only: append_take_drop_id sorted_desc_sort_key)
  have newer: "getTime (publishedAt p) \<le> getTime (publishedAt q)"
    if "q \<in> set (getRecentPosts this limit)" "p \<in> set (drop ?n ?s)" for p q
  proof -
    from that(1) obtain q' where q': "q' \<in> set (take ?n ?s)" "q = withAuthor ?a q'"
      unfolding r by auto
    from whole q'(1) that(2) have "pub_time p \<le> pub_time q'"
      unfolding sorted_wrt_append by blast
    then show ?thesis
      by (simp add: q'(2) withAuthor_fields pub_time_def)
  qed
  have stable: "filter (\<lambda>p. getTime (publishedAt p) = t)
        (map toPost (getRecentPosts this limit) @ drop ?n ?s) =
      filter (\<lambda>p. getTime (publishedAt p) = t) (this_posts this)" for t
  proof -
    have "filter (\<lambda>p. - pub_time p = - t) ?s = filter (\<lambda>p. - pub_time p = - t) (this_posts this)"
      by (rule sort_key_stable)
    then have "filter (\<lambda>p. getTime (publishedAt p) = t) ?s =
        filter (\<lambda>p. getTime (publishedAt p) = t) (this_posts this)"
      by (simp add: pub_time_def)
    then show ?thesis
      by (simp only: r map_toPost_withAuthor append_take_drop_id)
  qed
  from split newer stable
  have ex: "\<exists>rest. mset (map toPost (getRecentPosts this limit)) + mset rest
        = mset (this_posts this)
        \<and> (\<forall>q \<in> set (getRecentPosts this limit). \<forall>p \<in> set rest.
              getTime (publishedAt p) \<le> getTime (publishedAt q))
        \<and> (\<forall>t. filter (\<lambda>p. getTime (publishedAt p) = t)
                   (map toPost (getRecentPosts this limit) @ rest) =
                 filter (\<lambda>p. getTime (publishedAt p) = t) (this_posts this))"
    by blast
  show ?thesis
    using len srt strict auth ex by blast
qed

theorem getRecentPosts_prefix_witness:
  "length (getRecentPosts example_service 2) = 2
   \<and> sorted_wrt (\<lambda>a b. getTime (publishedAt b) < getTime (publishedAt a))
        (getRecentPosts example_service 2)
   \<and> author (hd (getRecentPosts example_service 2)) = example_author"
proof -
  have d: "distinct (map (\<lambda>p. getTime (publishedAt p)) (this_posts example_service))"
    by (simp add: example_service_def example_post_def getTime_def)
  have n: "length (this_posts example_service) = 3"
    by (simp add: example_service_def)
  have a: "this_author example_service = example_author"
    by (simp add: example_service_def)
  note t = getRecentPosts_prefix [of example_service 2]
  from t n have len: "length (getRecentPosts example_service 2) = 2"
    by simp
  then have "getRecentPosts example_service 2 \<noteq> []"
    by auto
  then have "hd (getRecentPosts example_service 2) \<in> set (getRecentPosts example_service 2)"
    by simp
  with t d a len show ?thesis
    by simp
qed

section \<open>The envelope of a page\<close>

text \<open>
  Claim C4 is stated for every filter set, and \<open>getPosts\<close> takes any number but 0 and
  \<open>NaN\<close> for \<open>page\<close> and \<open>perPage\<close> as it comes. In the example service of three
  posts, \<open>perPage = -2\<close> returns one post, more than the page size of -2, and
  \<open>perPage = 1.5\<close> with \<open>page = 2\<close> returns two posts, more than 1.5, since \<open>slice\<close>
  truncates its arguments. With \<open>page = -1\<close> and \<open>perPage = 2\<close> the service of two
  posts returns no post, although two posts match and the page, -1, does not exceed
  \<open>totalPages\<close>, 1. With \<open>page = 3.5\<close> and \<open>perPage = 1\<close> the example service returns
  a post, although the page exceeds \<open>totalPages\<close>, 3.
\<close>

theorem getPosts_page_bounds_counterexample:
  "map post_id (posts (getPosts example_service (Some (no_filters\<lparr>perPage := Some (Num (- 2))\<rparr>))))
     = [''3'']
   \<and> map post_id (posts (getPosts example_service
         (Some (no_filters\<lparr>page := Some (Num 2), perPage := Some (Num (3 / 2))\<rparr>))))
       = [''2'', ''1'']
   \<and> posts (getPosts tied_service
         (Some (no_filters\<lparr>page := Some (Num (- 1)), perPage := Some (Num 2)\<rparr>))) = []
   \<and> total_n (getPosts tied_service
         (Some (no_filters\<lparr>page := Some (Num (- 1)), perPage := Some (Num 2)\<rparr>))) = 2
   \<and> totalPages (getPosts tied_service
         (Some (no_filters\<lparr>page := Some (Num (- 1)), perPage := Some (Num 2)\<rparr>))) = Num 1
   \<and> map post_id (posts (getPosts example_service
         (Some (no_filters\<lparr>page := Some (Num (7 / 2)), perPage := Some (Num 1)\<rparr>))))
       = [''1'']
   \<and> totalPages (getPosts example_service
         (Some (no_filters\<lparr>page := Some (Num (7 / 2)), perPage := Some (Num 1)\<rparr>))) = Num 3"
  by code_simp

text \<open>
  Claim C4, as the code has it: when the page size in effect (\<open>perPage\<close>, or 10 when
  it is absent, 0 or \<open>NaN\<close>) is a positive integer and the page in effect (\<open>page\<close>, or
  1 when it is absent, 0 or \<open>NaN\<close>) is an integer, a page has at most \<open>perPage\<close> posts,
  \<open>total\<close> is the number of posts matched before pagination and \<open>totalPages\<close> is the
  ceiling of \<open>total / perPage\<close>; and when the page in effect is a positive integer,
  \<open>posts\<close> is empty if and only if the page exceeds \<open>totalPages\<close> or no post matches.
\<close>

theorem getPosts_page_bounds:
  assumes "perPage_n (getPosts this filters) = Num (of_int pp)" and "1 \<le> pp"
    and "page_n (getPosts this filters) = Num (of_int pg)"
  shows "int (length (posts (getPosts this filters))) \<le> pp
   \<and> total_n (getPosts this filters) = int (length (filteredPosts this filters))
   \<and> totalPages (getPosts this filters) =
       Num (of_int \<lceil>rat_of_int (total_n (getPosts this filters)) / rat_of_int pp\<rceil>)
   \<and> (1 \<le> pg \<longrightarrow>
        (posts (getPosts this filters) = []) =
        (\<lceil>rat_of_int (total_n (getPosts this filters)) / rat_of_int pp\<rceil> < pg
           \<or> total_n (getPosts this filters) = 0))"
proof -
  let ?r = "getPosts this filters"
  let ?xs = "filteredPosts this filters"
  have ps: "posts ?r = map (withAuthor (this_author this))
      (slice ?xs (Num (of_int ((pg - 1) * pp))) (Num (of_int ((pg - 1) * pp + pp))))"
    by (rule getPosts_int [OF assms(3) assms(1)])
  have len: "int (length (posts ?r)) \<le> pp"
    using length_slice_le [OF assms(2), of ?xs "(pg - 1) * pp"] by (simp only: ps length_map)
  have tot: "total_n ?r = int (length ?xs)"
    by (rule total_getPosts)
  have tp: "totalPages ?r = Num (of_int (ceil_div (total_n ?r) pp))"
    using assms(2) by (intro totalPages_int [OF assms(1)]) simp
  have empty: "(posts ?r = []) = (ceil_div (total_n ?r) pp < pg \<or> total_n ?r = 0)"
    if pg: "1 \<le> pg"
  proof -
    have nn: "0 \<le> (pg - 1) * pp"
      using pg assms(2) by simp
    have "posts ?r = map (withAuthor (this_author this))
        (take (nat pp) (drop (nat ((pg - 1) * pp)) ?xs))"
      using pg assms(2) by (simp only: ps slice_page)
    then have "(posts ?r = []) = (take (nat pp) (drop (nat ((pg - 1) * pp)) ?xs) = [])"
      by simp
    also have "\<dots> = (length ?xs \<le> nat ((pg - 1) * pp))"
      using assms(2) by (intro take_drop_Nil_iff) simp
    also have "\<dots> = (total_n ?r \<le> (pg - 1) * pp)"
      using nn by (simp add: tot) linarith
    also have "\<dots> = (ceil_div (total_n ?r) pp < pg)"
      using assms(2) by (simp add: ceil_div_less_iff)
    finally have main: "(posts ?r = []) = (ceil_div (total_n ?r) pp < pg)" .
    have "ceil_div (total_n ?r) pp < pg" if "total_n ?r = 0"
      using that pg by (simp add: ceil_div_def)
    with main show ?thesis
      by blast
  qed
  show ?thesis
    using len tot tp empty unfolding ceil_div_def by blast
qed

theorem getPosts_page_bounds_witness:
  "length (posts (getPosts example_service (Some (no_filters\<lparr>perPage := Some (Num 2)\<rparr>)))) = 2
   \<and> totalPages (getPosts example_service (Some (no_filters\<lparr>perPage := Some (Num 2)\<rparr>)))
       = Num 2
   \<and> posts (getPosts example_service
         (Some (no_filters\<lparr>perPage := Some (Num 2), page := Some (Num 3)\<rparr>))) = []"
proof -
  let ?f = "Some (no_filters\<lparr>perPage := Some (Num 2)\<rparr>)"
  let ?g = "Some (no_filters\<lparr>perPage := Some (Num 2), page := Some (Num 3)\<rparr>)"
  have f: "perPage_n (getPosts example_service ?f) = Num (of_int 2)"
      "page_n (getPosts example_service ?f) = Num (of_int 1)"
    by (simp_all add: getPosts_fields opt_def or_default_def no_filters_def)
  have g: "perPage_n (getPosts example_service ?g) = Num (of_int 2)"
      "page_n (getPosts example_service ?g) = Num (of_int 3)"
    by (simp_all add: getPosts_fields opt_def or_default_def no_filters_def)
  have tf: "total_n (getPosts example_service ?f) = 3"
    and tg: "total_n (getPosts example_service ?g) = 3"
    by code_simp+
  have lf: "length (posts (getPosts example_service ?f)) = 2"
    by code_simp
  have c: "\<lceil>(3::rat) / 2\<rceil> = 2"
    by (rule ceiling_unique) simp_all
  from getPosts_page_bounds [OF f(1) _ f(2)] tf c
  have "totalPages (getPosts example_service ?f) = Num 2"
    by simp
  moreover from getPosts_page_bounds [OF g(1) _ g(2)] tg c
  have "posts (getPosts example_service ?g) = []"
    by simp
  ultimately show ?thesis
    using lf by simp
qed

section \<open>Ascending against descending order\<close>

text \<open>
  Claim C5 says that the two orders return sequences that are the reverse of each other,
  with the same members. \<open>getPosts\<close> returns one page: with \<open>perPage = 2\<close> the
  example service returns its two oldest posts in ascending order and its two newest in
  descending order. And the sort is stable in both directions: two posts published at
  the same instant come in insertion order both times.
\<close>

theorem getPosts_asc_desc_counterexample:
  "map post_id (posts (getPosts example_service
      (Some (no_filters\<lparr>sortOrder := asc, perPage := Some (Num 2)\<rparr>)))) = [''1'', ''2'']
   \<and> map post_id (posts (getPosts example_service
      (Some (no_filters\<lparr>sortOrder := desc, perPage := Some (Num 2)\<rparr>)))) = [''3'', ''2'']
   \<and> map post_id (posts (getPosts tied_service (Some (no_filters\<lparr>sortOrder := asc\<rparr>))))
       = [''a'', ''b'']
   \<and> map post_id (posts (getPosts tied_service (Some (no_filters\<lparr>sortOrder := desc\<rparr>))))
       = [''a'', ''b'']"
  by code_simp

text \<open>
  Claim C5, as the code has it: for every filter set the two orders give the same
  \<open>total\<close> and \<open>totalPages\<close> and sort the same matched posts. In both orders the
  matched posts published at the same instant come in the order in which they are
  stored. When no two matched posts share a \<open>publishedAt\<close>, the sorted sequences that
  \<open>getPosts\<close> paginates are the reverse of each other, and so are the pages returned
  when the first page is requested with an integer page size that holds all matched
  posts.
\<close>

theorem getPosts_asc_desc:
  "total_n (getPosts this (Some (f\<lparr>sortOrder := asc\<rparr>))) =
     total_n (getPosts this (Some (f\<lparr>sortOrder := desc\<rparr>)))
   \<and> totalPages (getPosts this (Some (f\<lparr>sortOrder := asc\<rparr>))) =
     totalPages (getPosts this (Some (f\<lparr>sortOrder := desc\<rparr>)))
   \<and> mset (filteredPosts this (Some (f\<lparr>sortOrder := asc\<rparr>))) =
     mset (filteredPosts this (Some (f\<lparr>sortOrder := desc\<rparr>)))
   \<and> (\<forall>t. filter (\<lambda>p. getTime (publishedAt p) = t)
            (filteredPosts this (Some (f\<lparr>sortOrder := asc\<rparr>))) =
          filter (\<lambda>p. getTime (publishedAt p) = t)
            (applyMonthFilter (Some f) (applyYearFilter (Some f)
              (applySearchFilter (Some f) (this_posts this))))
        \<and> filter (\<lambda>p. getTime (publishedAt p) = t)
            (filteredPosts this (Some (f\<lparr>sortOrder := desc\<rparr>))) =
          filter (\<lambda>p. getTime (publishedAt p) = t)
            (applyMonthFilter (Some f) (applyYearFilter (Some f)
              (applySearchFilter (Some f) (this_posts this)))))
   \<and> (distinct (map (\<lambda>p. getTime (publishedAt p))
          (filteredPosts this (Some (f\<lparr>sortOrder := desc\<rparr>)))) \<longrightarrow>
        filteredPosts this (Some (f\<lparr>sortOrder := asc\<rparr>)) =
          rev (filteredPosts this (Some (f\<lparr>sortOrder := desc\<rparr>)))
        \<and> (page_n (getPosts this (Some (f\<lparr>sortOrder := desc\<rparr>))) = Num 1
             \<and> perPage_n (getPosts this (Some (f\<lparr>sortOrder := desc\<rparr>))) = Num (of_int pp)
             \<and> total_n (getPosts this (Some (f\<lparr>sortOrder := desc\<rparr>))) \<le> pp \<longrightarrow>
             posts (getPosts this (Some (f\<lparr>sortOrder := asc\<rparr>))) =
               rev (posts (getPosts this (Some (f\<lparr>sortOrder := desc\<rparr>))))))"
proof -
  let ?fa = "Some (f\<lparr>sortOrder := asc\<rparr>)"
  let ?fd = "Some (f\<lparr>sortOrder := desc\<rparr>)"
  let ?base = "applyMonthFilter (Some f) (applyYearFilter (Some f)
       (applySearchFilter (Some f) (this_posts this)))"
  have fa: "filteredPosts this ?fa = sort_key pub_time ?base"
    and fd: "filteredPosts this ?fd = sort_key (\<lambda>p. - pub_time p) ?base"
    by (rule filteredPosts_sortOrder)+
  have tot: "total_n (getPosts this ?fa) = total_n (getPosts this ?fd)"
    by (simp add: total_getPosts fa fd)
  have pg: "page_n (getPosts this ?fa) = page_n (getPosts this ?fd)"
    and pp: "perPage_n (getPosts this ?fa) = perPage_n (getPosts this ?fd)"
    by (simp_all add: getPosts_fields opt_def)
  have tp: "totalPages (getPosts this ?fa) = totalPages (getPosts this ?fd)"
    by (simp add: getPosts_fields(2) tot pp)
  have ms: "mset (filteredPosts this ?fa) = mset (filteredPosts this ?fd)"
    by (simp add: fa fd)
  have ties: "filter (\<lambda>p. getTime (publishedAt p) = t) (filteredPosts this ?fa) =
        filter (\<lambda>p. getTime (publishedAt p) = t) ?base
      \<and> filter (\<lambda>p. getTime (publishedAt p) = t) (filteredPosts this ?fd) =
        filter (\<lambda>p. getTime (publishedAt p) = t) ?base" for t
  proof -
    have "filter (\<lambda>p. pub_time p = t) (sort_key pub_time ?base) =
        filter (\<lambda>p. pub_time p = t) ?base"
      by (rule sort_key_stable)
    moreover have "filter (\<lambda>p. - pub_time p = - t) (sort_key (\<lambda>p. - pub_time p) ?base) =
        filter (\<lambda>p. - pub_time p = - t) ?base"
      by (rule sort_key_stable)
    ultimately show ?thesis
      by (simp add: fa fd pub_time_def)
  qed
  have rv: "filteredPosts this ?fa = rev (filteredPosts this ?fd)"
    if "distinct (map (\<lambda>p. getTime (publishedAt p)) (filteredPosts this ?fd))"
  proof -
    from that have "distinct (map pub_time (sort_key (\<lambda>p. - pub_time p) ?base))"
      by (simp add: fd pub_time_def [abs_def])
    then have "distinct (map pub_time ?base)"
      by (simp add: distinct_map)
    then show ?thesis
      unfolding fa fd by (rule sort_key_asc_rev_desc)
  qed
  have pv: "posts (getPosts this ?fa) = rev (posts (getPosts this ?fd))"
    if d: "distinct (map (\<lambda>p. getTime (publishedAt p)) (filteredPosts this ?fd))"
      and one: "page_n (getPosts this ?fd) = Num 1"
      and size: "perPage_n (getPosts this ?fd) = Num (of_int pp)"
      and fits: "total_n (getPosts this ?fd) \<le> pp"
  proof -
    have ld: "int (length (filteredPosts this ?fd)) \<le> pp"
      using fits by (simp add: total_getPosts)
    then have la: "int (length (filteredPosts this ?fa)) \<le> pp"
      by (simp add: rv [OF d])
    have one': "page_n (getPosts this ?fd) = Num (of_int 1)"
      using one by simp
    have "posts (getPosts this ?fd) = map (withAuthor (this_author this)) (filteredPosts this ?fd)"
      using getPosts_int [OF one' size] by (simp add: slice_whole [OF ld])
    moreover have "posts (getPosts this ?fa) =
        map (withAuthor (this_author this)) (filteredPosts this ?fa)"
      using getPosts_int [of this ?fa 1 pp] by (simp add: pg pp one size slice_whole [OF la])
    ultimately show ?thesis
      by (simp add: rv [OF d] rev_map)
  qed
  show ?thesis
    using tot tp ms ties rv pv by blast
qed

theorem getPosts_asc_desc_witness:
  "map post_id (posts (getPosts example_service (Some (no_filters\<lparr>sortOrder := asc\<rparr>)))) =
     rev (map post_id (posts (getPosts example_service (Some (no_filters\<lparr>sortOrder := desc\<rparr>)))))
   \<and> map post_id (posts (getPosts example_service (Some (no_filters\<lparr>sortOrder := desc\<rparr>))))
       = [''3'', ''2'', ''1'']"
proof -
  let ?fd = "Some (no_filters\<lparr>sortOrder := desc\<rparr>)"
  have d: "distinct (map (\<lambda>p. getTime (publishedAt p)) (filteredPosts example_service ?fd))"
    by code_simp
  have pg: "page_n (getPosts example_service ?fd) = Num 1"
    and pp: "perPage_n (getPosts example_service ?fd) = Num (of_int 10)"
    by (simp_all add: getPosts_fields opt_def or_default_def no_filters_def)
  have tot: "total_n (getPosts example_service ?fd) = 3"
    by code_simp
  have ids: "map post_id (posts (getPosts example_service ?fd)) = [''3'', ''2'', ''1'']"
    by code_simp
  from getPosts_asc_desc [of example_service no_filters 10] d pg pp tot
  have "posts (getPosts example_service (Some (no_filters\<lparr>sortOrder := asc\<rparr>))) =
      rev (posts (getPosts example_service ?fd))"
    by simp
  then have "map post_id (posts (getPosts example_service (Some (no_filters\<lparr>sortOrder := asc\<rparr>))))
      = rev (map post_id (posts (getPosts example_service ?fd)))"
    by (simp only: rev_map)
  with ids show ?thesis
    by blast
qed

section \<open>The pages partition the matched posts\<close>

text \<open>
  Claim C6 is stated for every filter set. With \<open>perPage = -2\<close> the example service
  reports \<open>total = 3\<close> and \<open>totalPages = -1\<close>: there is no page from 1 to
  \<open>totalPages\<close>, so the page lengths sum to 0 and not to 3, and the page numbered
  \<open>totalPages\<close> is empty although \<open>total\<close> is not 0. With \<open>perPage = 1.5\<close> the last
  page, the second, has two posts, more than 1.5. With an infinite \<open>perPage\<close>,
  \<open>totalPages\<close> is 0 and the page lengths sum to 0 again.
\<close>

theorem getPosts_pages_partition_counterexample:
  "total_n (getPosts example_service (Some (no_filters\<lparr>perPage := Some (Num (- 2))\<rparr>))) = 3
   \<and> totalPages (getPosts example_service (Some (no_filters\<lparr>perPage := Some (Num (- 2))\<rparr>)))
       = Num (- 1)
   \<and> sum_list (page_lengths example_service (no_filters\<lparr>perPage := Some (Num (- 2))\<rparr>)) = 0
   \<and> posts (last_page example_service (no_filters\<lparr>perPage := Some (Num (- 2))\<rparr>)) = []
   \<and> totalPages (getPosts example_service (Some (no_filters\<lparr>perPage := Some (Num (3 / 2))\<rparr>)))
       = Num 2
   \<and> map post_id (posts (last_page example_service (no_filters\<lparr>perPage := Some (Num (3 / 2))\<rparr>)))
       = [''2'', ''1'']
   \<and> total_n (getPosts example_service (Some (no_filters\<lparr>perPage := Some Infinity\<rparr>))) = 3
   \<and> totalPages (getPosts example_service (Some (no_filters\<lparr>perPage := Some Infinity\<rparr>)))
       = Num 0
   \<and> sum_list (page_lengths example_service (no_filters\<lparr>perPage := Some Infinity\<rparr>)) = 0"
  by code_simp

text \<open>
  Claim C6, as the code has it: when the page size in effect (\<open>perPage\<close>, or 10 when
  it is absent, 0 or \<open>NaN\<close>) is a positive integer, the numbers of posts on the pages 1
  to \<open>totalPages\<close> sum to \<open>total\<close>, and unless \<open>total\<close> is 0 the last of these pages
  has at least one post and at most \<open>perPage\<close> posts.
\<close>

theorem getPosts_pages_partition:
  assumes "perPage_n (getPosts this (Some f)) = Num (of_int pp)" and "1 \<le> pp"
  shows "sum_list (page_lengths this f) = total_n (getPosts this (Some f))
   \<and> (total_n (getPosts this (Some f)) \<noteq> 0 \<longrightarrow>
        1 \<le> length (posts (last_page this f))
        \<and> int (length (posts (last_page this f))) \<le> pp)"
proof -
  let ?r = "getPosts this (Some f)"
  let ?xs = "filteredPosts this (Some f)"
  let ?p = "nat pp"
  let ?tp = "ceil_div (int (length ?xs)) pp"
  have pp: "0 < pp" using assms(2) by simp
  have tot: "total_n ?r = int (length ?xs)"
    by (rule total_getPosts)
  have tp: "totalPages ?r = Num (of_int ?tp)"
    using totalPages_int [OF assms(1)] pp by (simp add: tot)
  have tp0: "0 \<le> ?tp"
    by (rule total_le_pages(3) [OF pp]) simp
  have cover: "int (length ?xs) \<le> ?tp * pp"
    by (rule total_le_pages(1) [OF pp])
  have "page_lengths this f =
      map (\<lambda>k. int (length (posts (getPosts this (Some (f\<lparr>page := Some (Num (of_int k))\<rparr>))))))
        [1..?tp]"
    by (simp add: page_lengths_def tp)
  also have "\<dots> =
      map (\<lambda>k. int (length (posts (getPosts this (Some (f\<lparr>page := Some (Num (of_int k))\<rparr>))))))
        (map (\<lambda>i. int i + 1) [0..<nat ?tp])"
    using upto_from_1 [of "nat ?tp"] tp0 by simp
  also have "\<dots> = map (\<lambda>i. int (length (take ?p (drop (i * ?p) ?xs)))) [0..<nat ?tp]"
  proof -
    have "length (posts (getPosts this (Some (f\<lparr>page := Some (Num (of_int (int i + 1)))\<rparr>)))) =
        length (take ?p (drop (i * ?p) ?xs))" for i
      using length_page [OF _ assms, of "int i + 1"] by simp
    then show ?thesis
      by (simp only: map_map comp_def)
  qed
  finally have "sum_list (page_lengths this f) =
      int (sum_list (map (\<lambda>i. length (take ?p (drop (i * ?p) ?xs))) [0..<nat ?tp]))"
    by (simp only: sum_list_of_nat [symmetric] map_map comp_def)
  also have "\<dots> = int (min (nat ?tp * ?p) (length ?xs))"
    by (simp only: sum_list_chunks)
  also have "\<dots> = int (length ?xs)"
  proof -
    have "int (nat ?tp * ?p) = ?tp * pp"
      using tp0 pp by simp
    with cover have "length ?xs \<le> nat ?tp * ?p"
      by linarith
    then show ?thesis by simp
  qed
  finally have sum: "sum_list (page_lengths this f) = total_n ?r"
    by (simp add: tot)
  have last: "1 \<le> length (posts (last_page this f))
        \<and> int (length (posts (last_page this f))) \<le> pp" if "total_n ?r \<noteq> 0"
  proof -
    from that have pos: "0 < int (length ?xs)"
      by (simp add: tot)
    with cover pp have tp1: "1 \<le> ?tp"
      by (smt (verit) mult_nonpos_nonneg zero_less_mult_iff)
    have below: "(?tp - 1) * pp < int (length ?xs)"
      by (rule total_le_pages(2) [OF pp pos])
    have "int (nat (?tp - 1) * ?p) = (?tp - 1) * pp"
      using tp1 pp by simp
    with below have lt: "nat (?tp - 1) * ?p < length ?xs"
      by linarith
    define m where "m = nat (?tp - 1) * ?p"
    have "length (posts (last_page this f)) = length (take ?p (drop (nat (?tp - 1) * ?p) ?xs))"
      unfolding last_page_def tp using tp1 assms by (rule length_page)
    then have len: "length (posts (last_page this f)) = min (length ?xs - m) ?p"
      by (simp add: m_def)
    have "m < length ?xs"
      using lt by (simp add: m_def)
    with pp have "1 \<le> min (length ?xs - m) ?p \<and> int (min (length ?xs - m) ?p) \<le> pp"
      by linarith
    then show ?thesis
      by (simp only: len)
  qed
  show ?thesis
    using sum last by blast
qed

theorem getPosts_pages_partition_witness:
  "sum_list (page_lengths example_service (no_filters\<lparr>perPage := Some (Num 2)\<rparr>)) = 3
   \<and> 1 \<le> length (posts (last_page example_service (no_filters\<lparr>perPage := Some (Num 2)\<rparr>)))
   \<and> int (length (posts (last_page example_service (no_filters\<lparr>perPage := Some (Num 2)\<rparr>))))
       \<le> 2"
proof -
  let ?f = "no_filters\<lparr>perPage := Some (Num 2)\<rparr>"
  have pp: "perPage_n (getPosts example_service (Some ?f)) = Num (of_int 2)"
    by (simp add: getPosts_fields opt_def or_default_def no_filters_def)
  have tot: "total_n (getPosts example_service (Some ?f)) = 3"
    by code_simp
  from getPosts_pages_partition [OF pp] tot show ?thesis
    by simp
qed

section \<open>Composition of the year and month filters\<close>

text \<open>
  Claim C7 says that \<open>getPosts({year: Y, month: M})\<close> returns exactly the posts matched
  by \<open>getPosts({year: Y})\<close> whose month is \<open>M\<close>. \<open>getPosts\<close> returns one page of them:
  in the service with eleven posts of November 2023, all eleven are matched by the year
  2023 and are of month 10, \<open>total\<close> is 11, and the query for year 2023 and month 10
  returns ten posts.
\<close>

theorem getPosts_year_month_composition_counterexample:
  "map getMonth (map publishedAt (this_posts november_service)) = replicate 11 10
   \<and> total_n (getPosts november_service
         (Some (no_filters\<lparr>year := Some 2023, month := Some 10\<rparr>))) = 11
   \<and> length (posts (getPosts november_service
         (Some (no_filters\<lparr>year := Some 2023, month := Some 10\<rparr>)))) = 10"
proof -
  let ?f = "Some (no_filters\<lparr>year := Some 2023, month := Some 10\<rparr>)"
  have months: "map getMonth (map publishedAt (this_posts november_service)) = replicate 11 10"
    by code_simp
  have years: "map getFullYear (map publishedAt (this_posts november_service)) = replicate 11 2023"
    by code_simp
  have all: "\<forall>p \<in> set (this_posts november_service).
      getFullYear (publishedAt p) = 2023 \<and> getMonth (publishedAt p) = 10"
  proof
    fix p assume p: "p \<in> set (this_posts november_service)"
    then have "getMonth (publishedAt p) \<in> set (map getMonth (map publishedAt (this_posts november_service)))"
      and "getFullYear (publishedAt p)
        \<in> set (map getFullYear (map publishedAt (this_posts november_service)))"
      by simp_all
    then show "getFullYear (publishedAt p) = 2023 \<and> getMonth (publishedAt p) = 10"
      unfolding months years by simp
  qed
  have "applyMonthFilter ?f (applyYearFilter ?f (applySearchFilter ?f (this_posts november_service)))
      = this_posts november_service"
    using all
    by (simp add: applyMonthFilter_def applyYearFilter_def applySearchFilter_def opt_def
        truthy_number_def no_filters_def)
  then have "length (filteredPosts november_service ?f) = length (this_posts november_service)"
    by (simp only: filteredPosts_def length_applySortOrder)
  then have len: "length (filteredPosts november_service ?f) = 11"
    by (simp add: november_service_def)
  have tot: "total_n (getPosts november_service ?f) = 11"
    by (simp add: total_getPosts len)
  have pg: "page_n (getPosts november_service ?f) = Num (of_int 1)"
    and sz: "perPage_n (getPosts november_service ?f) = Num (of_int 10)"
    by (simp_all add: getPosts_fields opt_def or_default_def no_filters_def)
  have "posts (getPosts november_service ?f) =
      map (withAuthor (this_author november_service))
        (take 10 (filteredPosts november_service ?f))"
    using getPosts_int [OF pg sz] slice_from_0 [of 10 "filteredPosts november_service ?f"]
    by simp
  then have "length (posts (getPosts november_service ?f)) = 10"
    by (simp add: len)
  with months tot show ?thesis
    by blast
qed

text \<open>
  Claim C7, as the code has it: for every year \<open>Y\<close> and month \<open>M\<close>, and whatever the
  other fields of the filter object are, the posts matched by
  \<open>getPosts({year: Y, month: M})\<close> before pagination are exactly the posts matched by
  \<open>getPosts({year: Y})\<close> whose \<open>publishedAt\<close> month is \<open>M\<close>, in the same order, and
  \<open>total\<close> counts them. The posts returned are the requested page of that sequence,
  the slice from \<open>(page - 1) * perPage\<close> to that index plus \<open>perPage\<close>. When the first
  page is requested with an integer page size that holds all posts matched by
  \<open>{year: Y}\<close>, the posts returned for \<open>{year: Y, month: M}\<close> are exactly the posts
  returned for \<open>{year: Y}\<close> whose month is \<open>M\<close>.
\<close>

theorem getPosts_year_month_composition:
  "filteredPosts this (Some (f\<lparr>year := Some Y, month := Some M\<rparr>)) =
     filter (\<lambda>p. getMonth (publishedAt p) = M)
       (filteredPosts this (Some (f\<lparr>year := Some Y, month := None\<rparr>)))
   \<and> total_n (getPosts this (Some (f\<lparr>year := Some Y, month := Some M\<rparr>))) =
     int (length (filter (\<lambda>p. getMonth (publishedAt p) = M)
       (filteredPosts this (Some (f\<lparr>year := Some Y, month := None\<rparr>)))))
   \<and> map toPost (posts (getPosts this (Some (f\<lparr>year := Some Y, month := Some M\<rparr>)))) =
     slice (filter (\<lambda>p. getMonth (publishedAt p) = M)
         (filteredPosts this (Some (f\<lparr>year := Some Y, month := None\<rparr>))))
       (num_mul (num_sub (page_n (getPosts this (Some (f\<lparr>year := Some Y, month := None\<rparr>))))
          (Num 1)) (perPage_n (getPosts this (Some (f\<lparr>year := Some Y, month := None\<rparr>)))))
       (num_add
         (num_mul (num_sub (page_n (getPosts this (Some (f\<lparr>year := Some Y, month := None\<rparr>))))
            (Num 1)) (perPage_n (getPosts this (Some (f\<lparr>year := Some Y, month := None\<rparr>)))))
         (perPage_n (getPosts this (Some (f\<lparr>year := Some Y, month := None\<rparr>)))))
   \<and> (page_n (getPosts this (Some (f\<lparr>year := Some Y, month := None\<rparr>))) = Num 1
        \<and> perPage_n (getPosts this (Some (f\<lparr>year := Some Y, month := None\<rparr>))) = Num (of_int pp)
        \<and> total_n (getPosts this (Some (f\<lparr>year := Some Y, month := None\<rparr>))) \<le> pp \<longrightarrow>
        posts (getPosts this (Some (f\<lparr>year := Some Y, month := Some M\<rparr>))) =
          filter (\<lambda>q. getMonth (publishedAt q) = M)
            (posts (getPosts this (Some (f\<lparr>year := Some Y, month := None\<rparr>)))))"
proof -
  let ?ym = "Some (f\<lparr>year := Some Y, month := Some M\<rparr>)"
  let ?y = "Some (f\<lparr>year := Some Y, month := None\<rparr>)"
  let ?in_month = "\<lambda>p::Post. getMonth (publishedAt p) = M"
  let ?a = "this_author this"
  have eq: "filteredPosts this ?ym = filter ?in_month (filteredPosts this ?y)"
    using filteredPosts_month [where f = "f\<lparr>year := Some Y\<rparr>" and M = M and this = this]
    by simp
  have tot: "total_n (getPosts this ?ym) = int (length (filter ?in_month (filteredPosts this ?y)))"
    by (simp add: total_getPosts eq)
  have pg: "page_n (getPosts this ?ym) = page_n (getPosts this ?y)"
    and sz: "perPage_n (getPosts this ?ym) = perPage_n (getPosts this ?y)"
    by (simp_all add: getPosts_fields opt_def)
  have page: "map toPost (posts (getPosts this ?ym)) =
      slice (filter ?in_month (filteredPosts this ?y))
        (num_mul (num_sub (page_n (getPosts this ?y)) (Num 1)) (perPage_n (getPosts this ?y)))
        (num_add (num_mul (num_sub (page_n (getPosts this ?y)) (Num 1))
           (perPage_n (getPosts this ?y))) (perPage_n (getPosts this ?y)))"
    using getPosts_fields(1) [of this ?ym] by (simp only: pg sz eq map_toPost_withAuthor)
  have first: "posts (getPosts this ?ym) =
      filter (\<lambda>q. getMonth (publishedAt q) = M) (posts (getPosts this ?y))"
    if one: "page_n (getPosts this ?y) = Num 1"
      and size: "perPage_n (getPosts this ?y) = Num (of_int pp)"
      and fits: "total_n (getPosts this ?y) \<le> pp"
  proof -
    have one': "page_n (getPosts this ?y) = Num (of_int 1)"
      using one by simp
    have ly: "int (length (filteredPosts this ?y)) \<le> pp"
      using fits by (simp add: total_getPosts)
    have "length (filter ?in_month (filteredPosts this ?y)) \<le> length (filteredPosts this ?y)"
      by (rule length_filter_le)
    with ly have lm: "int (length (filter ?in_month (filteredPosts this ?y))) \<le> pp"
      by linarith
    have py: "posts (getPosts this ?y) = map (withAuthor ?a) (filteredPosts this ?y)"
      using getPosts_int [OF one' size] by (simp add: slice_whole [OF ly])
    have "posts (getPosts this ?ym) =
        map (withAuthor ?a) (filter ?in_month (filteredPosts this ?y))"
      using getPosts_int [of this ?ym 1 pp]
      by (simp add: pg sz one size eq slice_whole [OF lm])
    also have "\<dots> = filter (\<lambda>q. getMonth (publishedAt q) = M)
        (map (withAuthor ?a) (filteredPosts this ?y))"
      by (simp add: filter_map comp_def withAuthor_fields)
    finally show ?thesis
      by (simp only: py)
  qed
  show ?thesis
    using eq tot page first by blast
qed

theorem getPosts_year_month_composition_witness:
  "posts (getPosts example_service (Some (no_filters\<lparr>year := Some 2023, month := Some 10\<rparr>))) =
     filter (\<lambda>q. getMonth (publishedAt q) = 10)
       (posts (getPosts example_service (Some (no_filters\<lparr>year := Some 2023, month := None\<rparr>))))
   \<and> map post_id (posts (getPosts example_service
         (Some (no_filters\<lparr>year := Some 2023, month := None\<rparr>)))) = [''3'', ''2'']
   \<and> map post_id (posts (getPosts example_service
         (Some (no_filters\<lparr>year := Some 2023, month := Some 10\<rparr>)))) = [''3'']"
proof -
  let ?y = "Some (no_filters\<lparr>year := Some 2023, month := None\<rparr>)"
  have pg: "page_n (getPosts example_service ?y) = Num 1"
    and sz: "perPage_n (getPosts example_service ?y) = Num (of_int 10)"
    by (simp_all add: getPosts_fields opt_def or_default_def no_filters_def)
  have tot: "total_n (getPosts example_service ?y) \<le> 10"
    by code_simp
  have ids: "map post_id (posts (getPosts example_service ?y)) = [''3'', ''2'']"
    "map post_id (posts (getPosts example_service
         (Some (no_filters\<lparr>year := Some 2023, month := Some 10\<rparr>)))) = [''3'']"
    by code_simp+
  from getPosts_year_month_composition
      [where this = example_service and f = no_filters and Y = 2023 and M = 10 and pp = 10]
    pg sz tot
  have "posts (getPosts example_service (Some (no_filters\<lparr>year := Some 2023, month := Some 10\<rparr>))) =
     filter (\<lambda>q. getMonth (publishedAt q) = 10) (posts (getPosts example_service ?y))"
    by blast
  with ids show ?thesis
    by blast
qed

section \<open>Looking a recent post up by its slug\<close>

text \<open>
  Claim C8: in the service as its constructor builds it, whatever the generator
  produces, \<open>getRecentPosts(1)\<close> returns a single post, and \<open>getPostBySlug\<close> on the
  slug of that post returns a post, not \<open>null\<close>, with the same \<open>id\<close>. For any
  service, \<open>getPostBySlug\<close> returns \<open>null\<close> exactly when no post has the slug; it has
  no failure.
\<close>

theorem slug_lookup_round_trip:
  "(\<exists>r q. getRecentPosts (fst (new_MockDatabaseService F now)) 1 = [r]
      \<and> getPostBySlug (fst (new_MockDatabaseService F now)) (slug r) = Some q
      \<and> post_id q = post_id r)
   \<and> (getPostBySlug this s = None) = (s \<notin> slug ` set (this_posts this))"
proof -
  let ?db = "fst (new_MockDatabaseService F now)"
  have "length (this_posts ?db) = 25"
    by (rule length_new_posts)
  then obtain p ps where ps: "this_posts ?db = p # ps"
    by (cases "this_posts ?db") simp_all
  have "sort_key (\<lambda>p. - pub_time p) (this_posts ?db) = this_posts ?db"
    by (rule sort_key_id_if_sorted) (rule sorted_new_posts)
  then have recent: "getRecentPosts ?db 1 = [withAuthor (this_author ?db) p]"
    by (simp add: getRecentPosts_take ps)
  have found: "getPostBySlug ?db (slug (withAuthor (this_author ?db) p))
      = Some (withAuthor (this_author ?db) p)"
    by (simp add: getPostBySlug_def ps withAuthor_fields)
  from recent found have "\<exists>r q. getRecentPosts ?db 1 = [r]
      \<and> getPostBySlug ?db (slug r) = Some q \<and> post_id q = post_id r"
    by blast
  then show ?thesis
    using getPostBySlug_None_iff by blast
qed

section \<open>Construction and the clock\<close>

text \<open>
  Claim C9 says that two constructions yield identical authors and posts, dates
  included, and the constructor's comment says that the seed is set for consistent data.
  The seed fixes the author, but \<open>generatePosts\<close> calls \<open>faker.date.past\<close> without a
  reference date, so every \<open>publishedAt\<close> is measured back from the time of the
  construction. For every generator that keeps the library's contract for
  \<open>date.past\<close>, two constructions at least two years (of 365 days) apart produce the
  same author and two post collections that have no \<open>publishedAt\<close> in common, and
  therefore differ.
\<close>

theorem construction_depends_on_clock:
  assumes "date_past_in_range F" and "now1 + 2 * 365 * 24 * 3600 * 1000 \<le> now2"
  shows "this_author (fst (new_MockDatabaseService F now1)) =
           this_author (fst (new_MockDatabaseService F now2))
       \<and> set (map publishedAt (this_posts (fst (new_MockDatabaseService F now1)))) \<inter>
           set (map publishedAt (this_posts (fst (new_MockDatabaseService F now2)))) = {}
       \<and> this_posts (fst (new_MockDatabaseService F now1)) \<noteq>
           this_posts (fst (new_MockDatabaseService F now2))"
proof -
  let ?p1 = "this_posts (fst (new_MockDatabaseService F now1))"
  let ?p2 = "this_posts (fst (new_MockDatabaseService F now2))"
  have r1: "\<forall>p \<in> set ?p1. time (publishedAt p) \<le> now1 - 1000"
    by (rule new_posts_all) (insert generatePost_time_range [OF assms(1), of now1], simp)
  have r2: "\<forall>p \<in> set ?p2. now2 - 2 * 365 * 24 * 3600 * 1000 \<le> time (publishedAt p)"
    by (rule new_posts_all) (insert generatePost_time_range [OF assms(1), of now2], simp)
  have disj: "set (map publishedAt ?p1) \<inter> set (map publishedAt ?p2) = {}"
  proof (rule ccontr)
    assume "set (map publishedAt ?p1) \<inter> set (map publishedAt ?p2) \<noteq> {}"
    then obtain p q where "p \<in> set ?p1" "q \<in> set ?p2" "publishedAt p = publishedAt q"
      by auto
    with r1 r2 have "now2 - 2 * 365 * 24 * 3600 * 1000 \<le> now1 - 1000"
      by fastforce
    with assms(2) show False
      by simp
  qed
  have "length ?p1 = 25"
    by (rule length_new_posts)
  then have "set (map publishedAt ?p1) \<noteq> {}"
    by auto
  with disj have "?p1 \<noteq> ?p2"
    by auto
  then show ?thesis
    using disj by (simp add: author_new)
qed

theorem construction_depends_on_clock_witness:
  "this_posts (fst (new_MockDatabaseService toy_faker 1700000000000)) \<noteq>
     this_posts (fst (new_MockDatabaseService toy_faker 1800000000000))"
  using construction_depends_on_clock [OF toy_date_past_in_range, of 1700000000000 1800000000000]
  by simp

section \<open>Page content\<close>

text \<open>
  Claim C10: for each of the pages \<open>home\<close>, \<open>about\<close> and \<open>contact\<close> and each of the
  locales \<open>pt\<close> and \<open>en\<close>, \<open>getPageContent\<close> returns a content object: it neither
  fails nor returns \<open>undefined\<close>. For the page \<open>home\<close> the list of paragraphs is
  empty, the title is a catch phrase drawn from the generator and the subtitle is present,
  a sentence of 8 to 15 words drawn from the generator.
\<close>

theorem getPageContent_configured:
  assumes "page_name \<in> {''home'', ''about'', ''contact''}" and "locale \<in> {''pt'', ''en''}"
  shows "\<exists>c. fst (getPageContent F page_name locale) = Inr (Some c)
     \<and> (page_name = ''home'' \<longrightarrow>
          pc_content c = []
          \<and> (\<exists>s. pc_title c = fst (company_catchPhrase F s))
          \<and> (\<exists>s. pc_subtitle c = Some (fst (lorem_sentence F 8 15 s))))"
proof -
  have l: "locale = ''pt'' \<or> locale = ''en''"
    using assms(2) by blast
  have "page_name = ''home'' \<or> page_name = ''about'' \<or> page_name = ''contact''"
    using assms(1) by blast
  then consider (home) "page_name = ''home''" | (about) "page_name = ''about''"
    | (contact) "page_name = ''contact''"
    by blast
  then show ?thesis
  proof cases
    case home
    with getPageContent_home [OF l, of F] show ?thesis
      by blast
  next
    case about
    then have "page_name \<noteq> ''home''"
      by simp
    with about getPageContent_about [OF l, of F] show ?thesis
      by blast
  next
    case contact
    then have "page_name \<noteq> ''home''"
      by simp
    with contact getPageContent_contact [OF l, of F] show ?thesis
      by blast
  qed
qed

theorem getPageContent_configured_witness:
  "\<exists>c. fst (getPageContent toy_faker ''home'' ''en'') = Inr (Some c)
     \<and> pc_content c = []
     \<and> pc_title c = ''Simple things first''
     \<and> pc_subtitle c = Some ''Lorem Ipsum dolor.''"
proof -
  have "''home'' \<in> {''home'', ''about'', ''contact''}" and "''en'' \<in> {''pt'', ''en''}"
    by simp_all
  from getPageContent_configured [OF this, of toy_faker]
  show ?thesis
    by (simp add: toy_faker_def)
qed

end
